theory Spec2Isabelle
  imports Main "HOL-Library.Word" "HOL-Library.Multiset"
begin

section \<open>Tile coordinates and the tile mapping state\<close>

text \<open>
  A shallow embedding of the tile residency engine of
  \<^verbatim>\<open>TileUpdateManager/StreamingResource.cpp\<close>. Tile indices, mip levels, sizes
  and fence values are only compared, shifted right and counted, so they are natural
  numbers; the reference count and the heap index of a tile are \<open>UINT32\<close> cells that
  the code increments and decrements, so they are 32-bit words. Indexing a
  \<^verbatim>\<open>std::vector\<close> out of range is undefined in the source: the model reads with
  \<open>!\<close> and writes with list update, and every theorem that depends on a cell states
  that its coordinate lies inside the grid.
\<close>

record D3D12_TILED_RESOURCE_COORDINATE =
  X :: nat
  Y :: nat
  Z :: nat
  Subresource :: nat

type_synonym coord = D3D12_TILED_RESOURCE_COORDINATE

datatype Residency = NotResident | Resident | Evicting | Loading

type_synonym 'a TileLayer = "'a list list list"

record TileMappingState =
  m_resident :: "Residency TileLayer"
  m_refcounts :: "32 word TileLayer"
  m_heapIndices :: "32 word TileLayer"

text \<open>The cell \<^verbatim>\<open>g[s][y][x]\<close> of a three-level vector, read and written.\<close>

definition layer_at :: "'a TileLayer \<Rightarrow> nat \<Rightarrow> nat \<Rightarrow> nat \<Rightarrow> 'a" where
  "layer_at g x y s = g ! s ! y ! x"

definition layer_upd :: "'a TileLayer \<Rightarrow> nat \<Rightarrow> nat \<Rightarrow> nat \<Rightarrow> 'a \<Rightarrow> 'a TileLayer" where
  "layer_upd g x y s v = g[s := (g ! s)[y := (g ! s ! y)[x := v]]]"

definition in_layer :: "'a TileLayer \<Rightarrow> nat \<Rightarrow> nat \<Rightarrow> nat \<Rightarrow> bool" where
  "in_layer g x y s \<longleftrightarrow> s < length g \<and> y < length (g ! s) \<and> x < length (g ! s ! y)"

definition GetNumSubresources :: "TileMappingState \<Rightarrow> nat" where
  "GetNumSubresources tms = length (m_refcounts tms)"

definition GetResident :: "TileMappingState \<Rightarrow> nat \<Rightarrow> nat \<Rightarrow> nat \<Rightarrow> bool" where
  "GetResident tms x y s \<longleftrightarrow> Resident = layer_at (m_resident tms) x y s"

definition GetResidency :: "TileMappingState \<Rightarrow> coord \<Rightarrow> Residency" where
  "GetResidency tms c = layer_at (m_resident tms) (X c) (Y c) (Subresource c)"

definition SetResident :: "TileMappingState \<Rightarrow> coord \<Rightarrow> TileMappingState" where
  "SetResident tms c =
     tms\<lparr>m_resident := layer_upd (m_resident tms) (X c) (Y c) (Subresource c) Resident\<rparr>"

definition SetNotResident :: "TileMappingState \<Rightarrow> coord \<Rightarrow> TileMappingState" where
  "SetNotResident tms c =
     tms\<lparr>m_resident := layer_upd (m_resident tms) (X c) (Y c) (Subresource c) NotResident\<rparr>"

definition SetLoading :: "TileMappingState \<Rightarrow> coord \<Rightarrow> TileMappingState" where
  "SetLoading tms c =
     tms\<lparr>m_resident := layer_upd (m_resident tms) (X c) (Y c) (Subresource c) Loading\<rparr>"

definition SetEvicting :: "TileMappingState \<Rightarrow> coord \<Rightarrow> TileMappingState" where
  "SetEvicting tms c =
     tms\<lparr>m_resident := layer_upd (m_resident tms) (X c) (Y c) (Subresource c) Evicting\<rparr>"

definition GetHeapIndex :: "TileMappingState \<Rightarrow> coord \<Rightarrow> 32 word" where
  "GetHeapIndex tms c = layer_at (m_heapIndices tms) (X c) (Y c) (Subresource c)"

definition SetHeapIndex :: "TileMappingState \<Rightarrow> coord \<Rightarrow> 32 word \<Rightarrow> TileMappingState" where
  "SetHeapIndex tms c i =
     tms\<lparr>m_heapIndices := layer_upd (m_heapIndices tms) (X c) (Y c) (Subresource c) i\<rparr>"

definition GetRefCount :: "TileMappingState \<Rightarrow> coord \<Rightarrow> 32 word" where
  "GetRefCount tms c = layer_at (m_refcounts tms) (X c) (Y c) (Subresource c)"

definition SetRefCount :: "TileMappingState \<Rightarrow> coord \<Rightarrow> 32 word \<Rightarrow> TileMappingState" where
  "SetRefCount tms c n =
     tms\<lparr>m_refcounts := layer_upd (m_refcounts tms) (X c) (Y c) (Subresource c) n\<rparr>"

definition GetWidth :: "TileMappingState \<Rightarrow> nat \<Rightarrow> nat" where
  "GetWidth tms s = length (m_resident tms ! s ! 0)"

definition GetHeight :: "TileMappingState \<Rightarrow> nat \<Rightarrow> nat" where
  "GetHeight tms s = length (m_resident tms ! s)"

text \<open>
  \<^verbatim>\<open>TileMappingState::GetAnyRefCount\<close>: scans the last (coarsest) layer of the
  reference counts and returns at the first nonzero one.
\<close>

definition GetAnyRefCount :: "TileMappingState \<Rightarrow> bool" where
  "GetAnyRefCount tms \<longleftrightarrow>
     list_ex (\<lambda>y. list_ex (\<lambda>x. x \<noteq> 0) y) (last (m_refcounts tms))"

text \<open>
  \<^verbatim>\<open>TileMappingState::GetMinResidentMip\<close>. The result is a \<open>UINT8\<close>: the number
  of layers is cast to eight bits, and \<open>minResidentMip - 1\<close> is converted back to eight
  bits on return. The two loops return at the first tile of the last layer that is not
  \<open>Resident\<close>.
\<close>

definition GetMinResidentMip :: "TileMappingState \<Rightarrow> nat" where
  "GetMinResidentMip tms =
     (let minResidentMip = length (m_resident tms) mod 256;
          lastMip = last (m_resident tms)
      in if list_all (\<lambda>y. list_all (\<lambda>x. Resident = x) y) lastMip
         then (if minResidentMip = 0 then 255 else minResidentMip - 1)
         else minResidentMip)"

text \<open>
  The specification's wording of the same function, for comparison: the coarsest
  (largest) layer index all of whose tiles are \<open>Resident\<close>, and the number of layers
  when there is none.
\<close>

definition mip_all_resident :: "TileMappingState \<Rightarrow> nat \<Rightarrow> bool" where
  "mip_all_resident tms s \<longleftrightarrow>
     list_all (\<lambda>y. list_all (\<lambda>x. Resident = x) y) (m_resident tms ! s)"

definition spec_min_resident_mip :: "TileMappingState \<Rightarrow> nat" where
  "spec_min_resident_mip tms =
     (case filter (mip_all_resident tms) (rev [0..<length (m_resident tms)]) of
        [] \<Rightarrow> length (m_resident tms)
      | s # _ \<Rightarrow> s)"

section \<open>The eviction delay ring\<close>

text \<open>
  \<^verbatim>\<open>EvictionDelay\<close> holds \<open>m_mappings\<close>, a vector of coordinate vectors. The
  resource constructs it with \<open>GetNumSwapBuffers() + 1\<close> buckets.
\<close>

type_synonym MappingCoords = "coord list"

type_synonym EvictionDelay = "MappingCoords list"

definition EvictionDelay_init :: "nat \<Rightarrow> EvictionDelay" where
  "EvictionDelay_init in_numSwapBuffers = replicate in_numSwapBuffers []"

definition Append :: "EvictionDelay \<Rightarrow> coord \<Rightarrow> EvictionDelay" where
  "Append m in_coord = m[0 := m ! 0 @ [in_coord]]"

definition GetReadyToEvict :: "EvictionDelay \<Rightarrow> MappingCoords" where
  "GetReadyToEvict m = last m"

definition SetReadyToEvict :: "EvictionDelay \<Rightarrow> MappingCoords \<Rightarrow> EvictionDelay" where
  "SetReadyToEvict m evictions = m[length m - 1 := evictions]"

text \<open>
  The loop \<^verbatim>\<open>for (i = lastMapping; i > 0; i--) m[i].swap(m[i - 1])\<close> of
  \<^verbatim>\<open>NextFrame\<close>, then the insertion of bucket 0 at the end of the last bucket and
  the clearing of bucket 0. (With a single bucket the source inserts a vector into
  itself, which the standard library leaves undefined.)
\<close>

fun swap_down :: "'a list \<Rightarrow> nat \<Rightarrow> 'a list" where
  "swap_down m 0 = m"
| "swap_down m (Suc i) = swap_down (m[Suc i := m ! i, i := m ! Suc i]) i"

definition NextFrame :: "EvictionDelay \<Rightarrow> EvictionDelay" where
  "NextFrame m =
     (let lastMapping = length m - 1;
          m1 = swap_down m lastMapping;
          m2 = m1[length m1 - 1 := last m1 @ m1 ! 0]
      in m2[0 := []])"

definition Clear :: "EvictionDelay \<Rightarrow> EvictionDelay" where
  "Clear m = map (\<lambda>i. []) m"

text \<open>
  \<^verbatim>\<open>Rescue\<close>, one bucket: the range-for over \<open>evictions\<close> visits index \<open>j\<close>; an
  entry whose tile has a nonzero reference count is overwritten by the entry at
  \<open>skippedIndex\<close>, and at the end the first \<open>skippedIndex\<close> entries are erased.
\<close>

function Rescue_scan ::
  "TileMappingState \<Rightarrow> MappingCoords \<Rightarrow> nat \<Rightarrow> nat \<Rightarrow> MappingCoords \<times> nat" where
  "Rescue_scan tms evictions j skippedIndex =
     (if j < length evictions then
        (if GetRefCount tms (evictions ! j) \<noteq> 0
         then Rescue_scan tms (evictions[j := evictions ! skippedIndex]) (Suc j) (Suc skippedIndex)
         else Rescue_scan tms evictions (Suc j) skippedIndex)
      else (evictions, skippedIndex))"
  by pat_completeness auto
termination
  by (relation "measure (\<lambda>(tms, evictions, j, skippedIndex). length evictions - j)") auto

definition Rescue_bucket :: "TileMappingState \<Rightarrow> MappingCoords \<Rightarrow> MappingCoords" where
  "Rescue_bucket tms evictions =
     (case Rescue_scan tms evictions 0 0 of
        (evictions', skippedIndex) \<Rightarrow>
          if skippedIndex \<noteq> 0 then drop skippedIndex evictions' else evictions')"

definition Rescue :: "EvictionDelay \<Rightarrow> TileMappingState \<Rightarrow> EvictionDelay" where
  "Rescue m in_tileMappingState = map (Rescue_bucket in_tileMappingState) m"

text \<open>
  The frames after an \<open>Append\<close>: each later frame calls \<open>NextFrame\<close> once and may
  append further coordinates (those of the frame's own feedback).
\<close>

fun later_frames :: "EvictionDelay \<Rightarrow> coord list list \<Rightarrow> EvictionDelay" where
  "later_frames m [] = m"
| "later_frames m (cs # rest) = later_frames (foldl Append (NextFrame m) cs) rest"

section \<open>The heap allocator and the update list\<close>

text \<open>
  Modelled from the spec: \<^verbatim>\<open>HeapAllocator\<close> (its header is not among the sources).
  The pool is the list of its free page indices. \<open>Allocate\<close> returns a free index, or
  the sentinel \<open>InvalidIndex\<close> when the pool is exhausted; \<open>Free\<close> returns an index to
  the pool; \<open>GetNumFree\<close> is the number of free indices, a \<open>UINT\<close>. The value of the
  sentinel is not given; it is taken to be all ones, and a well-formed pool never
  contains it.
\<close>

type_synonym HeapAllocator = "32 word list"

definition InvalidIndex :: "32 word" where
  "InvalidIndex = 0xFFFFFFFF"


definition Free :: "HeapAllocator \<Rightarrow> 32 word \<Rightarrow> HeapAllocator" where
  "Free h i = i # h"


text \<open>
  The part of \<^verbatim>\<open>UpdateList\<close> that the resource fills: the coordinates to load with
  their heap indices, and the coordinates to evict.
  Modelled from the spec: \<^verbatim>\<open>UpdateList::AddUpdate\<close> (its body is not among the
  sources) records a load coordinate together with its heap index.
\<close>

record UpdateList =
  m_coords :: "coord list"
  m_heapIndices_ul :: "32 word list"
  m_evictCoords :: "coord list"


section \<open>The streaming resource\<close>

record QueuedFeedback =
  m_renderFenceForFeedback :: nat
  m_feedbackQueued :: bool

record StreamingResourceBase =
  m_tileMappingState :: TileMappingState
  m_pendingEvictions :: EvictionDelay
  m_pendingTileLoads :: "coord list"
  m_tileReferences :: "nat list"
  m_tileReferencesWidth :: nat
  m_tileReferencesHeight :: nat
  m_maxMip :: nat
  m_minMipMap :: "nat list"
  m_tileResidencyChanged :: bool
  m_setZeroRefCounts :: bool
  m_refCountsZero :: bool
  m_queuedFeedback :: "QueuedFeedback list"
  m_residencyMapOffsetBase :: nat

text \<open>
  \<^verbatim>\<open>AddTileRef\<close> and \<^verbatim>\<open>DecTileRef\<close>. A failed \<^verbatim>\<open>ASSERT\<close> is the result
  \<open>None\<close>. \<open>ASSERT(~refCount)\<close> fails when the count is all ones.
\<close>

definition AddTileRef ::
  "StreamingResourceBase \<Rightarrow> nat \<Rightarrow> nat \<Rightarrow> nat \<Rightarrow> StreamingResourceBase option" where
  "AddTileRef sr in_x in_y in_s =
     (let c = \<lparr>X = in_x, Y = in_y, Z = 0, Subresource = in_s\<rparr>;
          refCount = GetRefCount (m_tileMappingState sr) c
      in if refCount = 0xFFFFFFFF then None
         else Some (sr\<lparr>m_pendingTileLoads :=
                          (if 0 = refCount then m_pendingTileLoads sr @ [c]
                           else m_pendingTileLoads sr),
                        m_tileMappingState :=
                          SetRefCount (m_tileMappingState sr) c (refCount + 1)\<rparr>))"

definition DecTileRef ::
  "StreamingResourceBase \<Rightarrow> nat \<Rightarrow> nat \<Rightarrow> nat \<Rightarrow> StreamingResourceBase option" where
  "DecTileRef sr in_x in_y in_s =
     (let c = \<lparr>X = in_x, Y = in_y, Z = 0, Subresource = in_s\<rparr>;
          refCount = GetRefCount (m_tileMappingState sr) c
      in if 0 = refCount then None
         else Some (sr\<lparr>m_pendingEvictions :=
                          (if 1 = refCount then Append (m_pendingEvictions sr) c
                           else m_pendingEvictions sr),
                        m_tileMappingState :=
                          SetRefCount (m_tileMappingState sr) c (refCount - 1)\<rparr>))"

text \<open>
  \<^verbatim>\<open>SetMinMip\<close>: the two \<open>while\<close> loops, over the same variable \<open>s\<close>. The shift
  \<open>in_x >> s\<close> is \<open>drop_bit s in_x\<close>.
\<close>

function SetMinMip_addrefs ::
  "StreamingResourceBase \<Rightarrow> nat \<Rightarrow> nat \<Rightarrow> nat \<Rightarrow> nat \<Rightarrow> (StreamingResourceBase \<times> nat) option"
  where
  "SetMinMip_addrefs sr s in_x in_y in_s =
     (if s > in_s then
        (case AddTileRef sr (drop_bit (s - 1) in_x) (drop_bit (s - 1) in_y) (s - 1) of
           None \<Rightarrow> None
         | Some sr' \<Rightarrow> SetMinMip_addrefs sr' (s - 1) in_x in_y in_s)
      else Some (sr, s))"
  by pat_completeness auto
termination
  by (relation "measure (\<lambda>(sr, s, in_x, in_y, in_s). s - in_s)") auto

function SetMinMip_decrefs ::
  "StreamingResourceBase \<Rightarrow> nat \<Rightarrow> nat \<Rightarrow> nat \<Rightarrow> nat \<Rightarrow> (StreamingResourceBase \<times> nat) option"
  where
  "SetMinMip_decrefs sr s in_x in_y in_s =
     (if s < in_s then
        (case DecTileRef sr (drop_bit s in_x) (drop_bit s in_y) s of
           None \<Rightarrow> None
         | Some sr' \<Rightarrow> SetMinMip_decrefs sr' (Suc s) in_x in_y in_s)
      else Some (sr, s))"
  by pat_completeness auto
termination
  by (relation "measure (\<lambda>(sr, s, in_x, in_y, in_s). in_s - s)") auto

definition SetMinMip ::
  "StreamingResourceBase \<Rightarrow> nat \<Rightarrow> nat \<Rightarrow> nat \<Rightarrow> nat \<Rightarrow> StreamingResourceBase option" where
  "SetMinMip sr in_current in_x in_y in_s =
     (case SetMinMip_addrefs sr in_current in_x in_y in_s of
        None \<Rightarrow> None
      | Some (sr1, s) \<Rightarrow> map_option fst (SetMinMip_decrefs sr1 s in_x in_y in_s))"

text \<open>
  \<^verbatim>\<open>AbandonPending\<close>: the swap-remove loop over \<open>m_pendingTileLoads\<close>, and the
  final \<open>resize(numPending)\<close>.
\<close>

function AbandonPending_loop ::
  "TileMappingState \<Rightarrow> coord list \<Rightarrow> nat \<Rightarrow> nat \<Rightarrow> coord list \<times> nat" where
  "AbandonPending_loop tms pending i numPending =
     (if i < numPending then
        (if GetRefCount tms (pending ! i) \<noteq> 0
         then AbandonPending_loop tms pending (Suc i) numPending
         else AbandonPending_loop tms (pending[i := pending ! (numPending - 1)]) i (numPending - 1))
      else (pending, numPending))"
  by pat_completeness auto
termination
  by (relation "measure (\<lambda>(tms, pending, i, numPending). numPending - i)") auto

definition AbandonPending :: "StreamingResourceBase \<Rightarrow> StreamingResourceBase" where
  "AbandonPending sr =
     (case AbandonPending_loop (m_tileMappingState sr) (m_pendingTileLoads sr) 0
             (length (m_pendingTileLoads sr)) of
        (pending, numPending) \<Rightarrow> sr\<lparr>m_pendingTileLoads := take numPending pending\<rparr>)"

text \<open>
  \<^verbatim>\<open>SetResidencyChanged\<close>: the resource's own flag (the call into the update
  manager, which sets a second flag there, is outside the resource).
\<close>

definition SetResidencyChanged :: "StreamingResourceBase \<Rightarrow> StreamingResourceBase" where
  "SetResidencyChanged sr = sr\<lparr>m_tileResidencyChanged := True\<rparr>"

text \<open>A loop whose body may fail an assertion: the first failure ends it.\<close>

fun option_fold :: "('a \<Rightarrow> 's \<Rightarrow> 's option) \<Rightarrow> 'a list \<Rightarrow> 's \<Rightarrow> 's option" where
  "option_fold f [] st = Some st"
| "option_fold f (a # as) st = (case f a st of None \<Rightarrow> None | Some st' \<Rightarrow> option_fold f as st')"

text \<open>
  The index pairs of \<^verbatim>\<open>for (y < height) for (x < width)\<close>, in the order the loops
  visit them, and the index triples of the three loops of the zero-refcount path.
\<close>

definition regions :: "nat \<Rightarrow> nat \<Rightarrow> (nat \<times> nat) list" where
  "regions width height = concat (map (\<lambda>y. map (\<lambda>x. (x, y)) [0..<width]) [0..<height])"

definition tracked_tiles :: "StreamingResourceBase \<Rightarrow> (nat \<times> nat \<times> nat) list" where
  "tracked_tiles sr =
     concat (map (\<lambda>s.
       concat (map (\<lambda>y. map (\<lambda>x. (x, y, s)) [0..<GetWidth (m_tileMappingState sr) s])
                   [0..<GetHeight (m_tileMappingState sr) s]))
       [0..<m_maxMip sr])"

text \<open>The body of the innermost loop of the zero-refcount path of \<^verbatim>\<open>ProcessFeedback\<close>.\<close>

definition zero_tile ::
  "nat \<times> nat \<times> nat \<Rightarrow> StreamingResourceBase \<times> bool \<Rightarrow> StreamingResourceBase \<times> bool" where
  "zero_tile t st =
     (case t of (x, y, s) \<Rightarrow> case st of (sr, changed) \<Rightarrow>
        let c = \<lparr>X = x, Y = y, Z = 0, Subresource = s\<rparr>;
            refCount = GetRefCount (m_tileMappingState sr) c
        in if refCount \<noteq> 0
           then (sr\<lparr>m_tileMappingState := SetRefCount (m_tileMappingState sr) c 0,
                    m_pendingEvictions := Append (m_pendingEvictions sr) c\<rparr>, True)
           else (sr, changed))"

text \<open>
  The search for the feedback to use: one step per index \<open>i\<close>, on the queue, on
  \<open>feedbackIndex\<close> (0 while none is found) and on \<open>latestFeedbackFenceValue\<close>.
\<close>

definition select_feedback ::
  "nat \<Rightarrow> nat \<Rightarrow> QueuedFeedback list \<times> nat \<times> nat \<Rightarrow> QueuedFeedback list \<times> nat \<times> nat" where
  "select_feedback in_frameFenceCompletedValue i st =
     (case st of (queue, feedbackIndex, latestFeedbackFenceValue) \<Rightarrow>
        if m_feedbackQueued (queue ! i) then
          (let feedbackFenceValue = m_renderFenceForFeedback (queue ! i)
           in if in_frameFenceCompletedValue \<ge> feedbackFenceValue \<and>
                 (feedbackIndex = 0 \<or> latestFeedbackFenceValue \<le> feedbackFenceValue)
              then (queue[i := (queue ! i)\<lparr>m_feedbackQueued := False\<rparr>], i + 1, feedbackFenceValue)
              else (queue, feedbackIndex, latestFeedbackFenceValue))
        else (queue, feedbackIndex, latestFeedbackFenceValue))"

text \<open>
  The body of the loop over the regions: the desired mip is the feedback byte clamped
  to \<open>m_maxMip\<close>. \<open>pitch\<close> is the length of a row of the resolved feedback.
\<close>

definition feedback_region ::
  "nat list \<Rightarrow> nat \<Rightarrow> nat \<times> nat \<Rightarrow> StreamingResourceBase \<times> bool
     \<Rightarrow> (StreamingResourceBase \<times> bool) option" where
  "feedback_region pResolvedData pitch r st =
     (case r of (x, y) \<Rightarrow> case st of (sr, changed) \<Rightarrow>
        let desired = min (pResolvedData ! (y * pitch + x)) (m_maxMip sr);
            initialValue = m_tileReferences sr ! (y * m_tileReferencesWidth sr + x)
        in case SetMinMip sr initialValue x y desired of
             None \<Rightarrow> None
           | Some sr' \<Rightarrow>
               Some (sr'\<lparr>m_tileReferences :=
                           (m_tileReferences sr')[y * m_tileReferencesWidth sr + x := desired]\<rparr>,
                     changed \<or> desired \<noteq> initialValue))"

definition update_references ::
  "nat list \<Rightarrow> nat \<Rightarrow> StreamingResourceBase \<Rightarrow> (StreamingResourceBase \<times> bool) option" where
  "update_references pResolvedData pitch sr =
     option_fold (feedback_region pResolvedData pitch)
       (regions (m_tileReferencesWidth sr) (m_tileReferencesHeight sr)) (sr, False)"

definition find_feedback :: "nat \<Rightarrow> QueuedFeedback list \<Rightarrow> QueuedFeedback list \<times> nat \<times> nat" where
  "find_feedback in_frameFenceCompletedValue queue =
     fold (select_feedback in_frameFenceCompletedValue) [0..<length queue] (queue, 0, 0)"

text \<open>
  The length of a row of the resolved feedback: the macro \<^verbatim>\<open>RESOLVE_TO_TEXTURE\<close>
  is a parameter.
\<close>

definition feedback_pitch :: "bool \<Rightarrow> nat \<Rightarrow> nat" where
  "feedback_pitch RESOLVE_TO_TEXTURE width = (if RESOLVE_TO_TEXTURE then max 256 width else width)"

text \<open>
  \<^verbatim>\<open>ProcessFeedback\<close>. The resolved feedback buffers belong to the resource's
  \<^verbatim>\<open>InternalResources\<close>: \<open>readback\<close> is the list of their contents, one per swap
  buffer.
\<close>

definition ProcessFeedback ::
  "bool \<Rightarrow> nat list list \<Rightarrow> StreamingResourceBase \<Rightarrow> nat \<Rightarrow> StreamingResourceBase option" where
  "ProcessFeedback RESOLVE_TO_TEXTURE readback sr in_frameFenceCompletedValue =
     (if m_setZeroRefCounts sr then
        (let sr1 = sr\<lparr>m_setZeroRefCounts := False\<rparr>
         in if m_refCountsZero sr1 then Some sr1
            else
              (let sr2 = sr1\<lparr>m_refCountsZero := True,
                            m_queuedFeedback :=
                              map (\<lambda>f. f\<lparr>m_feedbackQueued := False\<rparr>) (m_queuedFeedback sr1),
                            m_tileReferences :=
                              replicate (length (m_tileReferences sr1)) (m_maxMip sr1)\<rparr>;
                   (sr3, changed) = fold zero_tile (tracked_tiles sr2) (sr2, False);
                   sr4 = sr3\<lparr>m_pendingTileLoads := []\<rparr>
               in Some (if changed then SetResidencyChanged sr4 else sr4)))
      else
        (case find_feedback in_frameFenceCompletedValue (m_queuedFeedback sr) of
           (queue, feedbackIndex, latestFeedbackFenceValue) \<Rightarrow>
             let sr1 = sr\<lparr>m_queuedFeedback := queue\<rparr>
             in if feedbackIndex = 0 then Some sr1
                else
                  (case update_references (readback ! (feedbackIndex - 1))
                          (feedback_pitch RESOLVE_TO_TEXTURE (m_tileReferencesWidth sr1)) sr1 of
                     None \<Rightarrow> None
                   | Some (sr2, changed) \<Rightarrow>
                       let sr3 = (if changed then sr2\<lparr>m_refCountsZero := False\<rparr> else sr2);
                           sr4 = AbandonPending sr3;
                           sr5 = sr4\<lparr>m_pendingEvictions :=
                                       Rescue (m_pendingEvictions sr4) (m_tileMappingState sr4)\<rparr>
                       in Some (if changed then SetResidencyChanged sr5 else sr5))))"

section \<open>Queueing evictions and loads\<close>

text \<open>
  \<^verbatim>\<open>QueuePendingTileEvictions\<close>: the range-for over the ready bucket at index \<open>j\<close>,
  writing the delayed coordinates back at \<open>numDelayed\<close>; then
  \<open>evictions.resize(numDelayed)\<close>.
\<close>

function QueuePendingTileEvictions_loop ::
  "TileMappingState \<Rightarrow> HeapAllocator \<Rightarrow> UpdateList \<Rightarrow> MappingCoords \<Rightarrow> nat \<Rightarrow> nat
     \<Rightarrow> (TileMappingState \<times> HeapAllocator \<times> UpdateList \<times> MappingCoords \<times> nat) option" where
  "QueuePendingTileEvictions_loop tms h ul evictions j numDelayed =
     (if j < length evictions then
        (let coord = evictions ! j
         in if GetRefCount tms coord \<noteq> 0 then None
            else
              (let residency = GetResidency tms coord
               in if residency = Resident then
                    (let tms1 = SetEvicting tms coord;
                         heapIndex = GetHeapIndex tms1 coord;
                         h1 = Free h heapIndex;
                         tms2 = SetHeapIndex tms1 coord InvalidIndex;
                         ul1 = ul\<lparr>m_evictCoords := m_evictCoords ul @ [coord]\<rparr>
                     in QueuePendingTileEvictions_loop tms2 h1 ul1 evictions (Suc j) numDelayed)
                  else if residency = Loading then
                    QueuePendingTileEvictions_loop tms h ul (evictions[numDelayed := coord])
                      (Suc j) (Suc numDelayed)
                  else QueuePendingTileEvictions_loop tms h ul evictions (Suc j) numDelayed))
      else Some (tms, h, ul, evictions, numDelayed))"
  by pat_completeness auto
termination
  by (relation "measure (\<lambda>(tms, h, ul, evictions, j, numDelayed). length evictions - j)") auto

definition QueuePendingTileEvictions ::
  "StreamingResourceBase \<Rightarrow> HeapAllocator \<Rightarrow> UpdateList
     \<Rightarrow> (StreamingResourceBase \<times> HeapAllocator \<times> UpdateList) option" where
  "QueuePendingTileEvictions sr h ul =
     (if GetReadyToEvict (m_pendingEvictions sr) = [] then None
      else
        (case QueuePendingTileEvictions_loop (m_tileMappingState sr) h ul
                (GetReadyToEvict (m_pendingEvictions sr)) 0 0 of
           None \<Rightarrow> None
         | Some (tms', h', ul', evictions, numDelayed) \<Rightarrow>
             Some (sr\<lparr>m_tileMappingState := tms',
                      m_pendingEvictions :=
                        SetReadyToEvict (m_pendingEvictions sr) (take numDelayed evictions)\<rparr>,
                   h', ul')))"



section \<open>Publishing the min-mip map\<close>

text \<open>
  The inner \<open>while (s > 0)\<close> loop of \<^verbatim>\<open>UpdateMinMipMap\<close>: \<open>s\<close> is decremented,
  and the walk stops at the first tile that is not resident.
\<close>

fun min_mip_walk :: "TileMappingState \<Rightarrow> nat \<Rightarrow> nat \<Rightarrow> nat \<Rightarrow> nat \<Rightarrow> nat" where
  "min_mip_walk tms x y 0 minMip = minMip"
| "min_mip_walk tms x y (Suc s) minMip =
     (if GetResident tms (drop_bit s x) (drop_bit s y) s then min_mip_walk tms x y s s
      else minMip)"

definition min_mip_region ::
  "TileMappingState \<Rightarrow> nat \<Rightarrow> nat \<times> nat \<Rightarrow> nat list \<times> nat \<Rightarrow> nat list \<times> nat" where
  "min_mip_region tms minResidentMip r st =
     (case r of (x, y) \<Rightarrow> case st of (minMipMap, tileIndex) \<Rightarrow>
        let s = max minResidentMip (minMipMap ! tileIndex);
            minMip = min_mip_walk tms x y s s
        in (minMipMap[tileIndex := minMip], tileIndex + 1))"

text \<open>\<^verbatim>\<open>memcpy(dst + off, src, size)\<close> inside the destination buffer.\<close>

definition memcpy :: "nat list \<Rightarrow> nat \<Rightarrow> nat list \<Rightarrow> nat list" where
  "memcpy dst off src = take off dst @ src @ drop (off + length src) dst"

text \<open>
  \<^verbatim>\<open>UpdateMinMipMap\<close>: the second component is the update manager's shared
  residency map, into which the resource copies its min-mip map at its offset.
\<close>

definition UpdateMinMipMap ::
  "StreamingResourceBase \<Rightarrow> nat list \<Rightarrow> StreamingResourceBase \<times> nat list" where
  "UpdateMinMipMap sr residencyMap =
     (if \<not> m_tileResidencyChanged sr then (sr, residencyMap)
      else
        (let sr1 = sr\<lparr>m_tileResidencyChanged := False\<rparr>;
             tms = m_tileMappingState sr1;
             minMipMap =
               (if GetAnyRefCount tms
                then fst (fold (min_mip_region tms (GetMinResidentMip tms))
                            (regions (m_tileReferencesWidth sr1) (m_tileReferencesHeight sr1))
                            (m_minMipMap sr1, 0))
                else replicate (length (m_minMipMap sr1)) (m_maxMip sr1))
         in (sr1\<lparr>m_minMipMap := minMipMap\<rparr>,
             memcpy residencyMap (m_residencyMapOffsetBase sr1) minMipMap)))"

section \<open>Initial state and notifications\<close>

text \<open>
  \<^verbatim>\<open>TileMappingState::Init\<close>: one layer per mip, of the size its tiling gives
  (\<open>WidthInTiles\<close>, \<open>HeightInTiles\<close>); no references, no heap index, not resident.
\<close>

definition Init :: "nat \<Rightarrow> (nat \<times> nat) list \<Rightarrow> TileMappingState option" where
  "Init in_numMips in_pTiling =
     (if in_numMips = 0 then None
      else Some
        \<lparr>m_resident =
           map (\<lambda>mip. replicate (snd (in_pTiling ! mip)) (replicate (fst (in_pTiling ! mip)) NotResident))
             [0..<in_numMips],
         m_refcounts =
           map (\<lambda>mip. replicate (snd (in_pTiling ! mip)) (replicate (fst (in_pTiling ! mip)) 0))
             [0..<in_numMips],
         m_heapIndices =
           map (\<lambda>mip. replicate (snd (in_pTiling ! mip)) (replicate (fst (in_pTiling ! mip)) InvalidIndex))
             [0..<in_numMips]\<rparr>)"

text \<open>
  Modelled from the spec: \<^verbatim>\<open>NotifyEvicted\<close> and \<^verbatim>\<open>NotifyCopyComplete\<close> (the
  uploader calls them with the evict-coords and the load-coords of a completed update
  list; their bodies are not among the sources). For each evict-coord
  \<open>set_not_resident\<close>, for each loaded coord \<open>set_resident\<close>, and residency-changed is
  marked.
\<close>

definition NotifyEvicted :: "StreamingResourceBase \<Rightarrow> coord list \<Rightarrow> StreamingResourceBase" where
  "NotifyEvicted sr in_coords =
     SetResidencyChanged
       (sr\<lparr>m_tileMappingState := foldl SetNotResident (m_tileMappingState sr) in_coords\<rparr>)"

definition NotifyCopyComplete :: "StreamingResourceBase \<Rightarrow> coord list \<Rightarrow> StreamingResourceBase" where
  "NotifyCopyComplete sr in_coords =
     SetResidencyChanged
       (sr\<lparr>m_tileMappingState := foldl SetResident (m_tileMappingState sr) in_coords\<rparr>)"

text \<open>The coordinate \<open>c\<close> occurs in bucket \<open>k\<close> of the ring and in no other.\<close>

definition only_in :: "EvictionDelay \<Rightarrow> coord \<Rightarrow> nat \<Rightarrow> bool" where
  "only_in m c k \<longleftrightarrow> (\<forall>j < length m. c \<in> set (m ! j) \<longleftrightarrow> j = k)"

section \<open>Cells, and the case analysis of the queueing steps\<close>

text \<open>
  Two coordinates name the same cell of the grids when they agree on \<open>X\<close>, \<open>Y\<close> and
  \<open>Subresource\<close> (the code always sets \<open>Z\<close> to 0). A coordinate is valid when it
  lies inside the three grids of the tile mapping state.
\<close>

definition same_cell :: "coord \<Rightarrow> coord \<Rightarrow> bool" where
  "same_cell c c' \<longleftrightarrow> X c = X c' \<and> Y c = Y c' \<and> Subresource c = Subresource c'"

definition valid_coord :: "TileMappingState \<Rightarrow> coord \<Rightarrow> bool" where
  "valid_coord tms c \<longleftrightarrow>
     in_layer (m_resident tms) (X c) (Y c) (Subresource c) \<and>
     in_layer (m_refcounts tms) (X c) (Y c) (Subresource c) \<and>
     in_layer (m_heapIndices tms) (X c) (Y c) (Subresource c)"

text \<open>
  The case analysis of the specification for one coordinate of the ready bucket, on the
  tile mapping state, the heap, the update list and the list of delayed coordinates.
\<close>

definition evict_step ::
  "TileMappingState \<times> HeapAllocator \<times> UpdateList \<times> MappingCoords \<Rightarrow> coord
     \<Rightarrow> TileMappingState \<times> HeapAllocator \<times> UpdateList \<times> MappingCoords" where
  "evict_step st coord =
     (case st of (tms, h, ul, delayed) \<Rightarrow>
        (case GetResidency tms coord of
           Resident \<Rightarrow>
             (SetHeapIndex (SetEvicting tms coord) coord InvalidIndex,
              Free h (GetHeapIndex tms coord),
              ul\<lparr>m_evictCoords := m_evictCoords ul @ [coord]\<rparr>,
              delayed)
         | Loading \<Rightarrow> (tms, h, ul, delayed @ [coord])
         | NotResident \<Rightarrow> (tms, h, ul, delayed)
         | Evicting \<Rightarrow> (tms, h, ul, delayed)))"

definition tile_coord :: "TileMappingState \<Rightarrow> coord \<Rightarrow> bool" where
  "tile_coord tms c \<longleftrightarrow> valid_coord tms c \<and> Z c = 0"


section \<open>Example states\<close>

text \<open>
  One mip of two tiles: tile 1 is referenced and waits in the pending loads, tile 0 is
  unreferenced and waits in the eviction ring; two feedback buffers are queued.
\<close>

definition two_tiles :: StreamingResourceBase where
  "two_tiles =
     \<lparr>m_tileMappingState =
        \<lparr>m_resident = [[[NotResident, NotResident]]],
         m_refcounts = [[[0, 1]]],
         m_heapIndices = [[[InvalidIndex, InvalidIndex]]]\<rparr>,
      m_pendingEvictions = [[], [\<lparr>X = 0, Y = 0, Z = 0, Subresource = 0\<rparr>], []],
      m_pendingTileLoads = [\<lparr>X = 1, Y = 0, Z = 0, Subresource = 0\<rparr>],
      m_tileReferences = [1, 0],
      m_tileReferencesWidth = 2,
      m_tileReferencesHeight = 1,
      m_maxMip = 1,
      m_minMipMap = [1, 1],
      m_tileResidencyChanged = False,
      m_setZeroRefCounts = False,
      m_refCountsZero = False,
      m_queuedFeedback =
        [\<lparr>m_renderFenceForFeedback = 5, m_feedbackQueued = True\<rparr>,
         \<lparr>m_renderFenceForFeedback = 7, m_feedbackQueued = True\<rparr>],
      m_residencyMapOffsetBase = 0\<rparr>"

text \<open>
  The cold start of scenario S1: a grid of 4 by 4 tiles with four tracked mips, nothing
  referenced or resident, and a feedback buffer that asks for mip 0 at region (0, 0) and
  for nothing else.
\<close>

definition cold_4x4 :: StreamingResourceBase where
  "cold_4x4 =
     \<lparr>m_tileMappingState =
        \<lparr>m_resident =
           [[[NotResident, NotResident, NotResident, NotResident],
             [NotResident, NotResident, NotResident, NotResident],
             [NotResident, NotResident, NotResident, NotResident],
             [NotResident, NotResident, NotResident, NotResident]],
            [[NotResident, NotResident], [NotResident, NotResident]],
            [[NotResident]],
            [[NotResident]]],
         m_refcounts =
           [[[0, 0, 0, 0], [0, 0, 0, 0], [0, 0, 0, 0], [0, 0, 0, 0]],
            [[0, 0], [0, 0]],
            [[0]],
            [[0]]],
         m_heapIndices =
           [[[InvalidIndex, InvalidIndex, InvalidIndex, InvalidIndex],
             [InvalidIndex, InvalidIndex, InvalidIndex, InvalidIndex],
             [InvalidIndex, InvalidIndex, InvalidIndex, InvalidIndex],
             [InvalidIndex, InvalidIndex, InvalidIndex, InvalidIndex]],
            [[InvalidIndex, InvalidIndex], [InvalidIndex, InvalidIndex]],
            [[InvalidIndex]],
            [[InvalidIndex]]]\<rparr>,
      m_pendingEvictions = [[], [], []],
      m_pendingTileLoads = [],
      m_tileReferences = [4, 4, 4, 4, 4, 4, 4, 4, 4, 4, 4, 4, 4, 4, 4, 4],
      m_tileReferencesWidth = 4,
      m_tileReferencesHeight = 4,
      m_maxMip = 4,
      m_minMipMap = [4, 4, 4, 4, 4, 4, 4, 4, 4, 4, 4, 4, 4, 4, 4, 4],
      m_tileResidencyChanged = False,
      m_setZeroRefCounts = False,
      m_refCountsZero = True,
      m_queuedFeedback = [\<lparr>m_renderFenceForFeedback = 10, m_feedbackQueued = True\<rparr>,
                          \<lparr>m_renderFenceForFeedback = 4294967295, m_feedbackQueued = False\<rparr>],
      m_residencyMapOffsetBase = 0\<rparr>"

definition cold_feedback :: "nat list" where
  "cold_feedback = [0, 4, 4, 4, 4, 4, 4, 4, 4, 4, 4, 4, 4, 4, 4, 4]"

text \<open>
  One mip of four tiles, one in each residency, all unreferenced and all in the ready
  bucket of the eviction ring; and an update list with nothing in it.
\<close>

definition four_tiles :: StreamingResourceBase where
  "four_tiles =
     \<lparr>m_tileMappingState =
        \<lparr>m_resident = [[[Resident, Loading, NotResident, Evicting]]],
         m_refcounts = [[[0, 0, 0, 0]]],
         m_heapIndices = [[[5, 6, InvalidIndex, InvalidIndex]]]\<rparr>,
      m_pendingEvictions =
        [[], [],
         [\<lparr>X = 0, Y = 0, Z = 0, Subresource = 0\<rparr>, \<lparr>X = 1, Y = 0, Z = 0, Subresource = 0\<rparr>,
          \<lparr>X = 2, Y = 0, Z = 0, Subresource = 0\<rparr>, \<lparr>X = 3, Y = 0, Z = 0, Subresource = 0\<rparr>]],
      m_pendingTileLoads = [],
      m_tileReferences = [1, 1, 1, 1],
      m_tileReferencesWidth = 4,
      m_tileReferencesHeight = 1,
      m_maxMip = 1,
      m_minMipMap = [1, 1, 1, 1],
      m_tileResidencyChanged = False,
      m_setZeroRefCounts = False,
      m_refCountsZero = False,
      m_queuedFeedback = [],
      m_residencyMapOffsetBase = 0\<rparr>"

definition empty_UpdateList :: UpdateList where
  "empty_UpdateList = \<lparr>m_coords = [], m_heapIndices_ul = [], m_evictCoords = []\<rparr>"



section \<open>The evict-all path\<close>

text \<open>
  The coordinate that the zero-refcount loop of \<^verbatim>\<open>ProcessFeedback\<close> builds for the
  indices \<open>(x, y, s)\<close>, the coordinates of the tracked tiles whose reference count is not
  0, in the order of the loop, and the reference counts of a list of coordinates set to 0.
\<close>

definition tile_of :: "nat \<times> nat \<times> nat \<Rightarrow> coord" where
  "tile_of t = (case t of (x, y, s) \<Rightarrow> \<lparr>X = x, Y = y, Z = 0, Subresource = s\<rparr>)"

definition with_refcount :: "TileMappingState \<Rightarrow> (nat \<times> nat \<times> nat) list \<Rightarrow> coord list" where
  "with_refcount tms ts = map tile_of (filter (\<lambda>t. GetRefCount tms (tile_of t) \<noteq> 0) ts)"

definition clear_refcounts :: "coord list \<Rightarrow> TileMappingState \<Rightarrow> TileMappingState" where
  "clear_refcounts cs tms = fold (\<lambda>c tms. SetRefCount tms c 0) cs tms"

definition in_use :: "StreamingResourceBase \<Rightarrow> coord list" where
  "in_use sr = with_refcount (m_tileMappingState sr) (tracked_tiles sr)"

text \<open>Every tile that the zero-refcount loop visits lies inside the grid of reference counts.\<close>

definition tracked_in_range :: "StreamingResourceBase \<Rightarrow> bool" where
  "tracked_in_range sr \<longleftrightarrow>
     list_all (\<lambda>t. in_layer (m_refcounts (m_tileMappingState sr)) (fst t) (fst (snd t)) (snd (snd t)))
       (tracked_tiles sr)"

text \<open>
  Scenario S6: three resident tiles in use and a fourth tile waiting to be loaded, with
  the evict-all signal set.
\<close>

definition in_use_tiles :: StreamingResourceBase where
  "in_use_tiles =
     \<lparr>m_tileMappingState =
        \<lparr>m_resident = [[[Resident, Resident, Resident, NotResident]]],
         m_refcounts = [[[1, 1, 1, 1]]],
         m_heapIndices = [[[0, 1, 2, InvalidIndex]]]\<rparr>,
      m_pendingEvictions = [[], [], []],
      m_pendingTileLoads = [\<lparr>X = 3, Y = 0, Z = 0, Subresource = 0\<rparr>],
      m_tileReferences = [0, 0, 0, 0],
      m_tileReferencesWidth = 4,
      m_tileReferencesHeight = 1,
      m_maxMip = 1,
      m_minMipMap = [0, 0, 0, 1],
      m_tileResidencyChanged = False,
      m_setZeroRefCounts = True,
      m_refCountsZero = False,
      m_queuedFeedback = [\<lparr>m_renderFenceForFeedback = 5, m_feedbackQueued = True\<rparr>],
      m_residencyMapOffsetBase = 0\<rparr>"

text \<open>
  A resident tile that feedback has already released: its reference count is 0 and it
  waits in the eviction delay. The evict-all signal is set.
\<close>

definition idle_resident :: StreamingResourceBase where
  "idle_resident =
     \<lparr>m_tileMappingState =
        \<lparr>m_resident = [[[Resident]]],
         m_refcounts = [[[0]]],
         m_heapIndices = [[[3]]]\<rparr>,
      m_pendingEvictions = [[], [\<lparr>X = 0, Y = 0, Z = 0, Subresource = 0\<rparr>], []],
      m_pendingTileLoads = [],
      m_tileReferences = [1],
      m_tileReferencesWidth = 1,
      m_tileReferencesHeight = 1,
      m_maxMip = 1,
      m_minMipMap = [0],
      m_tileResidencyChanged = False,
      m_setZeroRefCounts = True,
      m_refCountsZero = False,
      m_queuedFeedback = [],
      m_residencyMapOffsetBase = 0\<rparr>"

section \<open>The chain of tiles above a region\<close>

text \<open>
  For every region \<open>(x, y)\<close> of the finest mip, the tiles \<open>(x >> k, y >> k, k)\<close> of the
  tracked mips lie inside the grid of residencies.
\<close>

definition chain_in_range :: "StreamingResourceBase \<Rightarrow> bool" where
  "chain_in_range sr \<longleftrightarrow>
     list_all (\<lambda>r. list_all (\<lambda>k. in_layer (m_resident (m_tileMappingState sr))
                                   (drop_bit k (fst r)) (drop_bit k (snd r)) k)
                  [0..<m_maxMip sr])
       (regions (m_tileReferencesWidth sr) (m_tileReferencesHeight sr))"

text \<open>
  Two tracked mips over two regions: the coarse tile and the fine tile of region 0 are
  resident, the fine tile of region 1 is not. The residency has changed since the last
  min-mip map.
\<close>

definition half_resident :: StreamingResourceBase where
  "half_resident =
     \<lparr>m_tileMappingState =
        \<lparr>m_resident = [[[Resident, NotResident]], [[Resident]]],
         m_refcounts = [[[1, 0]], [[2]]],
         m_heapIndices = [[[0, InvalidIndex]], [[1]]]\<rparr>,
      m_pendingEvictions = [[], [], []],
      m_pendingTileLoads = [],
      m_tileReferences = [0, 1],
      m_tileReferencesWidth = 2,
      m_tileReferencesHeight = 1,
      m_maxMip = 2,
      m_minMipMap = [2, 2],
      m_tileResidencyChanged = True,
      m_setZeroRefCounts = False,
      m_refCountsZero = False,
      m_queuedFeedback = [],
      m_residencyMapOffsetBase = 1\<rparr>"

section \<open>The coarsest fully resident mip\<close>

text \<open>
  C9, as the specification words it, fails: with two layers of one tile each, the finer
  one \<open>Resident\<close> and the coarser one not, the coarsest fully resident layer is 0, and
  the code, which looks at the last layer only, returns 2.
\<close>

theorem GetMinResidentMip_not_coarsest_resident:
  "GetMinResidentMip
     \<lparr>m_resident = [[[Resident]], [[NotResident]]],
      m_refcounts = [[[1]], [[1]]],
      m_heapIndices = [[[0]], [[0xFFFFFFFF]]]\<rparr> = 2 \<and>
   spec_min_resident_mip
     \<lparr>m_resident = [[[Resident]], [[NotResident]]],
      m_refcounts = [[[1]], [[1]]],
      m_heapIndices = [[[0]], [[0xFFFFFFFF]]]\<rparr> = 0"
  by (simp add: GetMinResidentMip_def spec_min_resident_mip_def mip_all_resident_def)

text \<open>
  C9, amended: for a state with between 1 and 255 layers, \<open>GetMinResidentMip\<close>
  returns \<open>M - 1\<close> when every tile of the last layer \<open>M - 1\<close> is \<open>Resident\<close>, and
  \<open>M\<close> otherwise, whatever the residency of the finer layers.
\<close>

theorem GetMinResidentMip_last_layer:
  assumes "0 < length (m_resident tms)" and "length (m_resident tms) < 256"
  shows "GetMinResidentMip tms =
           (if mip_all_resident tms (length (m_resident tms) - 1)
            then length (m_resident tms) - 1 else length (m_resident tms))"
  using assms
  by (simp add: GetMinResidentMip_def mip_all_resident_def last_conv_nth)

theorem GetMinResidentMip_last_layer_witness:
  "GetMinResidentMip
     \<lparr>m_resident = [[[NotResident, Loading]], [[Resident]]],
      m_refcounts = [[[0, 1]], [[1]]],
      m_heapIndices = [[[0xFFFFFFFF, 3]], [[0]]]\<rparr> = 1"
  using GetMinResidentMip_last_layer
    [of "\<lparr>m_resident = [[[NotResident, Loading]], [[Resident]]],
          m_refcounts = [[[0, 1]], [[1]]],
          m_heapIndices = [[[0xFFFFFFFF, 3]], [[0]]]\<rparr>"]
  by (simp add: mip_all_resident_def)

section \<open>The eviction delay\<close>

lemma swap_down_append: "swap_down (xs @ r # ys) (length xs) = r # xs @ ys"
proof (induction xs arbitrary: ys rule: rev_induct)
  case Nil
  then show ?case by simp
next
  case (snoc x xs)
  have "swap_down ((xs @ [x]) @ r # ys) (length (xs @ [x])) =
        swap_down (((xs @ [x]) @ r # ys)[Suc (length xs) := ((xs @ [x]) @ r # ys) ! length xs,
                    length xs := ((xs @ [x]) @ r # ys) ! Suc (length xs)]) (length xs)"
    by simp
  also have "((xs @ [x]) @ r # ys)[Suc (length xs) := ((xs @ [x]) @ r # ys) ! length xs,
                    length xs := ((xs @ [x]) @ r # ys) ! Suc (length xs)] = xs @ r # (x # ys)"
    by (simp add: list_update_append nth_append)
  also have "swap_down (xs @ r # (x # ys)) (length xs) = r # xs @ x # ys"
    by (rule snoc.IH)
  finally show ?case by simp
qed

lemma NextFrame_snoc2: "NextFrame (bs @ [b, r]) = [] # bs @ [b @ r]"
proof -
  have "swap_down (bs @ [b, r]) (length (bs @ [b, r]) - 1) = r # (bs @ [b]) @ []"
    using swap_down_append [of "bs @ [b]" r "[]"] by simp
  then show ?thesis
    by (simp add: NextFrame_def Let_def list_update_append nth_append)
qed

lemma two_buckets_split:
  assumes "2 \<le> length (m :: 'a list)"
  obtains bs b r where "m = bs @ [b, r]"
proof (cases m rule: rev_cases)
  case Nil
  then show ?thesis using assms by simp
next
  case (snoc m' r)
  show ?thesis
  proof (cases m' rule: rev_cases)
    case Nil
    then show ?thesis using assms snoc by simp
  next
    case s2: (snoc bs b)
    then show ?thesis using snoc that by simp
  qed
qed

lemma length_NextFrame: "2 \<le> length m \<Longrightarrow> length (NextFrame m) = length m"
  by (erule two_buckets_split) (simp add: NextFrame_snoc2)

lemma NextFrame_nth:
  assumes "2 \<le> length m" and "j < length m"
  shows "NextFrame m ! j =
           (if j = 0 then [] else if j = length m - 1 then m ! (j - 1) @ m ! j else m ! (j - 1))"
proof -
  from assms(1) obtain bs b r where m: "m = bs @ [b, r]" by (rule two_buckets_split)
  have eq: "NextFrame m = [] # bs @ [b @ r]" by (simp add: m NextFrame_snoc2)
  show ?thesis
  proof (cases j)
    case 0
    then show ?thesis by (simp add: eq)
  next
    case (Suc k)
    show ?thesis
    proof (cases "k < length bs")
      case True
      then show ?thesis unfolding eq Suc by (simp add: m nth_append)
    next
      case False
      then have "k = length bs" using assms(2) Suc by (simp add: m)
      then show ?thesis unfolding eq Suc by (simp add: m nth_append)
    qed
  qed
qed

lemma NextFrame_mset:
  assumes "2 \<le> length m"
  shows "mset (concat (NextFrame m)) = mset (concat m)"
  using assms by (elim two_buckets_split) (simp add: NextFrame_snoc2)

lemma length_Append: "length (Append m c) = length m"
  by (simp add: Append_def)

lemma Append_nth:
  "j < length m \<Longrightarrow> Append m c ! j = (if j = 0 then m ! 0 @ [c] else m ! j)"
  by (auto simp: Append_def nth_list_update)

lemma only_in_NextFrame:
  assumes "2 \<le> length m" and "only_in m c k" and "k < length m"
  shows "only_in (NextFrame m) c (min (Suc k) (length m - 1))"
  unfolding only_in_def
proof (intro allI impI)
  fix j assume "j < length (NextFrame m)"
  then have j: "j < length m" using assms(1) by (simp add: length_NextFrame)
  have o: "\<And>i. i < length m \<Longrightarrow> c \<in> set (m ! i) \<longleftrightarrow> i = k"
    using assms(2) by (simp add: only_in_def)
  show "c \<in> set (NextFrame m ! j) \<longleftrightarrow> j = min (Suc k) (length m - 1)"
  proof (cases "j = 0")
    case True
    then show ?thesis using assms(1) j by (simp add: NextFrame_nth)
  next
    case False
    then have jm: "j - 1 < length m" using j by simp
    show ?thesis
    proof (cases "j = length m - 1")
      case True
      then show ?thesis using False j jm assms(1,3) o [OF j] o [OF jm]
        by (simp add: NextFrame_nth) arith
    next
      case F2: False
      then show ?thesis using False j jm assms(1,3) o [OF jm]
        by (simp add: NextFrame_nth) arith
    qed
  qed
qed

lemma only_in_Append_other:
  assumes "only_in m c k" and "d \<noteq> c"
  shows "only_in (Append m d) c k"
  using assms by (auto simp: only_in_def length_Append Append_nth)

lemma only_in_foldl_Append:
  assumes "only_in m c k" and "c \<notin> set cs"
  shows "only_in (foldl Append m cs) c k \<and> length (foldl Append m cs) = length m"
  using assms
proof (induction cs arbitrary: m)
  case Nil
  then show ?case by simp
next
  case (Cons d cs)
  then have "only_in (Append m d) c k" by (auto intro: only_in_Append_other)
  with Cons show ?case by (simp add: length_Append)
qed

lemma only_in_later_frames:
  assumes "2 \<le> length m" and "only_in m c k" and "k < length m" and "c \<notin> set (concat others)"
  shows "only_in (later_frames m others) c (min (k + length others) (length m - 1)) \<and>
         length (later_frames m others) = length m"
  using assms
proof (induction others arbitrary: m k)
  case Nil
  then show ?case by simp
next
  case (Cons cs rest)
  let ?m1 = "foldl Append (NextFrame m) cs"
  let ?k1 = "min (Suc k) (length m - 1)"
  have 1: "only_in (NextFrame m) c ?k1"
    using Cons.prems by (intro only_in_NextFrame) auto
  have 2: "only_in ?m1 c ?k1 \<and> length ?m1 = length m"
    using only_in_foldl_Append [OF 1, of cs] Cons.prems by (simp add: length_NextFrame)
  have 3: "?k1 < length ?m1" using 2 Cons.prems by simp
  have 4: "c \<notin> set (concat rest)" using Cons.prems by simp
  have 5: "2 \<le> length ?m1" using 2 Cons.prems by simp
  from Cons.IH [OF 5 _ 3 4] 2
  have "only_in (later_frames ?m1 rest) c (min (?k1 + length rest) (length ?m1 - 1)) \<and>
        length (later_frames ?m1 rest) = length ?m1" by simp
  moreover have "min (?k1 + length rest) (length m - 1) = min (k + length (cs # rest)) (length m - 1)"
    by simp
  ultimately show ?case using 2 by simp
qed


lemma last_at: "length xs = Suc n \<Longrightarrow> last xs = xs ! n"
  by (subst last_conv_nth) auto

text \<open>
  C6: in a ring of \<open>swap_buffers + 1\<close> buckets (at least one swap buffer), a
  coordinate that is appended, and that is in no bucket before and is not appended
  again, is in the ready-to-evict bucket after the later frames exactly when there were
  at least \<open>swap_buffers\<close> of them, whatever else those frames append. \<open>NextFrame\<close>
  loses no coordinate: the new ready bucket is the bucket before it followed by the old
  ready bucket, and the coordinates of the whole ring are the same multiset. With two
  swap buffers the ready bucket of a fresh ring is empty after the append and after one
  \<open>NextFrame\<close>, and holds the coordinate after the second.
\<close>

theorem EvictionDelay_delay:
  assumes "0 < swap_buffers" and "length m = swap_buffers + 1"
    and "\<forall>b \<in> set m. c \<notin> set b" and "c \<notin> set (concat others)"
  shows "(c \<in> set (GetReadyToEvict (later_frames (Append m c) others))
            \<longleftrightarrow> swap_buffers \<le> length others) \<and>
         GetReadyToEvict (NextFrame m) = m ! (swap_buffers - 1) @ GetReadyToEvict m \<and>
         mset (concat (NextFrame m)) = mset (concat m) \<and>
         GetReadyToEvict (Append (EvictionDelay_init 3) c) = [] \<and>
         GetReadyToEvict (NextFrame (Append (EvictionDelay_init 3) c)) = [] \<and>
         GetReadyToEvict (NextFrame (NextFrame (Append (EvictionDelay_init 3) c))) = [c]"
proof -
  have len: "2 \<le> length m" using assms(1,2) by simp
  have len': "2 \<le> length (Append m c)" using len by (simp add: length_Append)
  have start: "only_in (Append m c) c 0"
    using assms(3) len by (auto simp: only_in_def length_Append Append_nth)
  have "only_in (later_frames (Append m c) others) c
          (min (0 + length others) (length (Append m c) - 1)) \<and>
        length (later_frames (Append m c) others) = length (Append m c)"
    using len' start assms(4) by (intro only_in_later_frames) auto
  then have o: "only_in (later_frames (Append m c) others) c (min (length others) swap_buffers)"
    and l: "length (later_frames (Append m c) others) = swap_buffers + 1"
    using assms(2) by (simp_all add: length_Append)
  have "GetReadyToEvict (later_frames (Append m c) others) =
          later_frames (Append m c) others ! swap_buffers"
    using l by (simp add: GetReadyToEvict_def last_at)
  then have 1: "c \<in> set (GetReadyToEvict (later_frames (Append m c) others))
                  \<longleftrightarrow> swap_buffers \<le> length others"
    using o l by (auto simp: only_in_def)
  have "GetReadyToEvict (NextFrame m) = NextFrame m ! swap_buffers"
    using len assms(2) by (simp add: GetReadyToEvict_def last_at length_NextFrame)
  also have "\<dots> = m ! (swap_buffers - 1) @ m ! swap_buffers"
    using len assms(1,2) by (simp add: NextFrame_nth)
  also have "m ! swap_buffers = GetReadyToEvict m"
    using len assms(2) by (simp add: GetReadyToEvict_def last_at)
  finally have 2: "GetReadyToEvict (NextFrame m) = m ! (swap_buffers - 1) @ GetReadyToEvict m" .
  have 3: "mset (concat (NextFrame m)) = mset (concat m)"
    using len by (rule NextFrame_mset)
  have i3: "EvictionDelay_init 3 = [[], [], []]"
    by (simp add: EvictionDelay_init_def numeral_3_eq_3)
  have a: "Append [[], [], []] c = [[c], [], []]" by (simp add: Append_def)
  have n1: "NextFrame ([[c]] @ [[], []]) = [] # [[c]] @ [[] @ []]" by (rule NextFrame_snoc2)
  have n2: "NextFrame ([[]] @ [[c], []]) = [] # [[]] @ [[c] @ []]" by (rule NextFrame_snoc2)
  have 4: "GetReadyToEvict (Append (EvictionDelay_init 3) c) = []"
    by (simp add: i3 a GetReadyToEvict_def)
  have 5: "GetReadyToEvict (NextFrame (Append (EvictionDelay_init 3) c)) = []"
    using n1 by (simp add: i3 a GetReadyToEvict_def)
  have 6: "GetReadyToEvict (NextFrame (NextFrame (Append (EvictionDelay_init 3) c))) = [c]"
    using n1 n2 by (simp add: i3 a GetReadyToEvict_def)
  from 1 2 3 4 5 6 show ?thesis by blast
qed

theorem EvictionDelay_delay_witness:
  "\<lparr>X = 1, Y = 2, Z = 0, Subresource = 0\<rparr>
     \<notin> set (GetReadyToEvict (later_frames
              (Append [[], [\<lparr>X = 0, Y = 0, Z = 0, Subresource = 1\<rparr>], []]
                 \<lparr>X = 1, Y = 2, Z = 0, Subresource = 0\<rparr>)
              [[\<lparr>X = 3, Y = 0, Z = 0, Subresource = 0\<rparr>]])) \<and>
   \<lparr>X = 1, Y = 2, Z = 0, Subresource = 0\<rparr>
     \<in> set (GetReadyToEvict (later_frames
              (Append [[], [\<lparr>X = 0, Y = 0, Z = 0, Subresource = 1\<rparr>], []]
                 \<lparr>X = 1, Y = 2, Z = 0, Subresource = 0\<rparr>)
              [[\<lparr>X = 3, Y = 0, Z = 0, Subresource = 0\<rparr>], []]))"
  using EvictionDelay_delay [of 2 "[[], [\<lparr>X = 0, Y = 0, Z = 0, Subresource = 1\<rparr>], []]"
          "\<lparr>X = 1, Y = 2, Z = 0, Subresource = 0\<rparr>"
          "[[\<lparr>X = 3, Y = 0, Z = 0, Subresource = 0\<rparr>]]"]
        EvictionDelay_delay [of 2 "[[], [\<lparr>X = 0, Y = 0, Z = 0, Subresource = 1\<rparr>], []]"
          "\<lparr>X = 1, Y = 2, Z = 0, Subresource = 0\<rparr>"
          "[[\<lparr>X = 3, Y = 0, Z = 0, Subresource = 0\<rparr>], []]"]
  by simp

section \<open>Cells of a tile layer\<close>

declare SetMinMip_addrefs.simps [simp del]
declare SetMinMip_decrefs.simps [simp del]
declare AbandonPending_loop.simps [simp del]
declare Rescue_scan.simps [simp del]
declare QueuePendingTileEvictions_loop.simps [simp del]

lemma layer_at_upd_same:
  "in_layer g x y s \<Longrightarrow> layer_at (layer_upd g x y s v) x y s = v"
  by (simp add: in_layer_def layer_at_def layer_upd_def)

lemma layer_at_upd_other:
  "(x', y', s') \<noteq> (x, y, s) \<Longrightarrow> layer_at (layer_upd g x y s v) x' y' s' = layer_at g x' y' s'"
  by (cases "s < length g"; cases "y < length (g ! s)")
     (auto simp: layer_at_def layer_upd_def nth_list_update list_update_beyond not_less)

lemma in_layer_upd [simp]:
  "in_layer (layer_upd g x y s v) x' y' s' = in_layer g x' y' s'"
  by (cases "s < length g"; cases "y < length (g ! s)")
     (auto simp: in_layer_def layer_upd_def nth_list_update list_update_beyond not_less
           split: if_splits)

section \<open>The order of the reference updates\<close>

lemma SetMinMip_addrefs_fold:
  "SetMinMip_addrefs sr s x y d =
     (if d < s
      then map_option (\<lambda>sr'. (sr', d))
             (option_fold (\<lambda>k sr'. AddTileRef sr' (drop_bit k x) (drop_bit k y) k) (rev [d..<s]) sr)
      else Some (sr, s))"
proof (induction sr s x y d rule: SetMinMip_addrefs.induct)
  case (1 sr s x y d)
  show ?case
  proof (cases "d < s")
    case False
    then show ?thesis by (subst SetMinMip_addrefs.simps) simp
  next
    case True
    then obtain s' where s: "s = Suc s'" by (cases s) auto
    have r: "rev [d..<s] = s' # rev [d..<s']" using True s by simp
    show ?thesis
    proof (cases "AddTileRef sr (drop_bit s' x) (drop_bit s' y) s'")
      case None
      then show ?thesis using True s by (subst SetMinMip_addrefs.simps) (simp add: r)
    next
      case (Some sr1)
      have ih: "SetMinMip_addrefs sr1 s' x y d =
         (if d < s'
          then map_option (\<lambda>sr'. (sr', d))
             (option_fold (\<lambda>k sr'. AddTileRef sr' (drop_bit k x) (drop_bit k y) k) (rev [d..<s']) sr1)
          else Some (sr1, s'))"
        using "1.IH" [of sr1] True Some s by simp
      have ds: "\<not> d < s' \<Longrightarrow> s' = d" using True s by simp
      show ?thesis
        using True s Some ih ds
        by (subst SetMinMip_addrefs.simps) (auto simp: r)
    qed
  qed
qed

lemma SetMinMip_decrefs_fold:
  "SetMinMip_decrefs sr s x y d =
     (if s < d
      then map_option (\<lambda>sr'. (sr', d))
             (option_fold (\<lambda>k sr'. DecTileRef sr' (drop_bit k x) (drop_bit k y) k) [s..<d] sr)
      else Some (sr, s))"
proof (induction sr s x y d rule: SetMinMip_decrefs.induct)
  case (1 sr s x y d)
  show ?case
  proof (cases "s < d")
    case False
    then show ?thesis by (subst SetMinMip_decrefs.simps) simp
  next
    case True
    have r: "[s..<d] = s # [Suc s..<d]" using True by (simp add: upt_conv_Cons)
    show ?thesis
    proof (cases "DecTileRef sr (drop_bit s x) (drop_bit s y) s")
      case None
      then show ?thesis using True by (subst SetMinMip_decrefs.simps) (simp add: r)
    next
      case (Some sr1)
      have ih: "SetMinMip_decrefs sr1 (Suc s) x y d =
         (if Suc s < d
          then map_option (\<lambda>sr'. (sr', d))
             (option_fold (\<lambda>k sr'. DecTileRef sr' (drop_bit k x) (drop_bit k y) k) [Suc s..<d] sr1)
          else Some (sr1, Suc s))"
        using "1.IH" [of sr1] True Some by simp
      have ds: "\<not> Suc s < d \<Longrightarrow> Suc s = d" using True by simp
      show ?thesis
        using True Some ih ds
        by (subst SetMinMip_decrefs.simps) (auto simp: r)
    qed
  qed
qed

lemma SetMinMip_finer:
  "d < c \<Longrightarrow> SetMinMip sr c x y d =
     option_fold (\<lambda>k sr'. AddTileRef sr' (drop_bit k x) (drop_bit k y) k) (rev [d..<c]) sr"
  by (cases "option_fold (\<lambda>k sr'. AddTileRef sr' (drop_bit k x) (drop_bit k y) k) (rev [d..<c]) sr")
     (simp_all add: SetMinMip_def SetMinMip_addrefs_fold SetMinMip_decrefs_fold)

lemma SetMinMip_coarser:
  "c < d \<Longrightarrow> SetMinMip sr c x y d =
     option_fold (\<lambda>k sr'. DecTileRef sr' (drop_bit k x) (drop_bit k y) k) [c..<d] sr"
  by (cases "option_fold (\<lambda>k sr'. DecTileRef sr' (drop_bit k x) (drop_bit k y) k) [c..<d] sr")
     (simp_all add: SetMinMip_def SetMinMip_addrefs_fold SetMinMip_decrefs_fold)

lemma SetMinMip_same: "SetMinMip sr c x y c = Some sr"
  by (simp add: SetMinMip_def SetMinMip_addrefs_fold SetMinMip_decrefs_fold)

section \<open>Abandoned loads and rescued evictions\<close>

lemma seg_Cons: "i < n \<Longrightarrow> map ((!) p) [i..<n] = p ! i # map ((!) p) [Suc i..<n]"
  by (simp add: upt_conv_Cons)

lemma seg_update_outside:
  "k < i \<or> n \<le> k \<Longrightarrow> map ((!) (p[k := v])) [i..<n] = map ((!) p) [i..<n]"
  by (auto simp: nth_list_update)

lemma seg_take: "n \<le> length p \<Longrightarrow> map ((!) p) [0..<n] = take n p"
  by (rule nth_equalityI) auto

lemma seg_drop: "k \<le> length p \<Longrightarrow> map ((!) p) [k..<length p] = drop k p"
  by (rule nth_equalityI) auto

lemma seg_from: "k \<le> n \<Longrightarrow> n \<le> length p \<Longrightarrow> map ((!) p) [k..<n] = drop k (take n p)"
  by (rule nth_equalityI) auto


lemma AbandonPending_loop_mset:
  assumes "i \<le> n" and "n \<le> length p" and "AbandonPending_loop tms p i n = (p', n')"
  shows "n' \<le> length p' \<and>
         mset (take n' p') =
           mset (take i p) +
           filter_mset (\<lambda>c. GetRefCount tms c \<noteq> 0) (mset (map ((!) p) [i..<n]))"
  using assms
proof (induction tms p i n arbitrary: p' n' rule: AbandonPending_loop.induct)
  case (1 tms p i n)
  let ?keep = "\<lambda>c. GetRefCount tms c \<noteq> 0"
  show ?case
  proof (cases "i < n")
    case False
    then have "AbandonPending_loop tms p i n = (p, n)"
      by (subst AbandonPending_loop.simps) simp
    then have "p' = p" "n' = n" "i = n"
      using "1.prems" False by simp_all
    then show ?thesis using "1.prems" by simp
  next
    case True
    show ?thesis
    proof (cases "?keep (p ! i)")
      case k: True
      have "AbandonPending_loop tms p i n = AbandonPending_loop tms p (Suc i) n"
        using True k by (subst AbandonPending_loop.simps) simp
      then have run: "AbandonPending_loop tms p (Suc i) n = (p', n')"
        using "1.prems"(3) by simp
      have ih: "n' \<le> length p' \<and>
         mset (take n' p') = mset (take (Suc i) p) +
           filter_mset ?keep (mset (map ((!) p) [Suc i..<n]))"
        using "1.IH"(1) [OF True k _ _ run] True "1.prems"(2) by simp
      have ilen: "i < length p" using True "1.prems"(2) by simp
      have t: "take (Suc i) p = take i p @ [p ! i]"
        using ilen by (simp add: take_Suc_conv_app_nth)
      show ?thesis using ih k by (simp add: t seg_Cons [OF True] del: mset_map mset_upt)
    next
      case k: False
      let ?p2 = "p[i := p ! (n - 1)]"
      have "AbandonPending_loop tms p i n = AbandonPending_loop tms ?p2 i (n - 1)"
        using True k by (subst AbandonPending_loop.simps) simp
      then have run: "AbandonPending_loop tms ?p2 i (n - 1) = (p', n')"
        using "1.prems"(3) by simp
      have ih: "n' \<le> length p' \<and>
         mset (take n' p') = mset (take i ?p2) +
           filter_mset ?keep (mset (map ((!) ?p2) [i..<n - 1]))"
        using "1.IH"(2) [OF True k _ _ run] True "1.prems"(2) by simp
      have seg2: "mset (map ((!) ?p2) [i..<n - 1]) = mset (map ((!) p) [Suc i..<n])"
      proof (cases "i < n - 1")
        case False
        then have "i = n - 1" using True by simp
        then show ?thesis using True by simp
      next
        case lt: True
        have ilen: "i < length p" using True "1.prems"(2) by simp
        have "map ((!) ?p2) [i..<n - 1] = ?p2 ! i # map ((!) ?p2) [Suc i..<n - 1]"
          using lt by (rule seg_Cons)
        also have "?p2 ! i = p ! (n - 1)" using ilen by simp
        also have "map ((!) ?p2) [Suc i..<n - 1] = map ((!) p) [Suc i..<n - 1]"
          by (rule seg_update_outside) simp
        finally have a: "mset (map ((!) ?p2) [i..<n - 1]) =
                           add_mset (p ! (n - 1)) (mset (map ((!) p) [Suc i..<n - 1]))"
          by simp
        obtain m where m: "n = Suc m" using True by (cases n) auto
        have b: "map ((!) p) [Suc i..<n] = map ((!) p) [Suc i..<n - 1] @ [p ! (n - 1)]"
          using lt by (simp add: m)
        show ?thesis unfolding a b by (simp del: mset_map mset_upt)
      qed
      show ?thesis using ih [unfolded seg2] k
        by (simp add: seg_Cons [OF True] del: mset_map mset_upt)
    qed
  qed
qed

lemma AbandonPending_mset:
  "mset (m_pendingTileLoads (AbandonPending sr)) =
     filter_mset (\<lambda>c. GetRefCount (m_tileMappingState sr) c \<noteq> 0) (mset (m_pendingTileLoads sr))"
proof -
  obtain p' n' where run: "AbandonPending_loop (m_tileMappingState sr) (m_pendingTileLoads sr) 0
             (length (m_pendingTileLoads sr)) = (p', n')"
    by (cases "AbandonPending_loop (m_tileMappingState sr) (m_pendingTileLoads sr) 0
             (length (m_pendingTileLoads sr))") auto
  from AbandonPending_loop_mset [OF _ _ run]
  have "mset (take n' p') =
          filter_mset (\<lambda>c. GetRefCount (m_tileMappingState sr) c \<noteq> 0)
            (mset (map ((!) (m_pendingTileLoads sr)) [0..<length (m_pendingTileLoads sr)]))"
    by simp
  then show ?thesis by (simp add: AbandonPending_def run map_nth)
qed

lemma AbandonPending_other:
  "AbandonPending sr = sr\<lparr>m_pendingTileLoads := m_pendingTileLoads (AbandonPending sr)\<rparr>"
  by (simp add: AbandonPending_def split: prod.splits)


lemma Rescue_scan_mset:
  assumes "k \<le> j" and "j \<le> length ev" and "Rescue_scan tms ev j k = (ev', k')"
  shows "mset (drop k' ev') =
           mset (map ((!) ev) [k..<j]) +
           filter_mset (\<lambda>c. GetRefCount tms c = 0) (mset (map ((!) ev) [j..<length ev]))"
  using assms
proof (induction tms ev j k arbitrary: ev' k' rule: Rescue_scan.induct)
  case (1 tms ev j k)
  let ?keep = "\<lambda>c. GetRefCount tms c = 0"
  show ?case
  proof (cases "j < length ev")
    case False
    then have "Rescue_scan tms ev j k = (ev, k)"
      by (subst Rescue_scan.simps) simp
    then have "ev' = ev" "k' = k" "j = length ev"
      using "1.prems" False by simp_all
    then show ?thesis using "1.prems" by (simp add: seg_drop del: mset_map mset_upt)
  next
    case True
    have segj: "map ((!) ev) [j..<length ev] = ev ! j # map ((!) ev) [Suc j..<length ev]"
      using True by (rule seg_Cons)
    show ?thesis
    proof (cases "?keep (ev ! j)")
      case kp: True
      have "Rescue_scan tms ev j k = Rescue_scan tms ev (Suc j) k"
        using True kp by (subst Rescue_scan.simps) simp
      then have run: "Rescue_scan tms ev (Suc j) k = (ev', k')"
        using "1.prems"(3) by simp
      have ih: "mset (drop k' ev') = mset (map ((!) ev) [k..<Suc j]) +
           filter_mset ?keep (mset (map ((!) ev) [Suc j..<length ev]))"
        using "1.IH"(2) [OF True _ _ _ run] kp True "1.prems"(1) by simp
      have "map ((!) ev) [k..<Suc j] = map ((!) ev) [k..<j] @ [ev ! j]"
        using "1.prems"(1) by simp
      then show ?thesis using ih kp unfolding segj by (simp del: mset_map mset_upt)
    next
      case kp: False
      let ?ev2 = "ev[j := ev ! k]"
      have "Rescue_scan tms ev j k = Rescue_scan tms ?ev2 (Suc j) (Suc k)"
        using True kp by (subst Rescue_scan.simps) simp
      then have run: "Rescue_scan tms ?ev2 (Suc j) (Suc k) = (ev', k')"
        using "1.prems"(3) by simp
      have ih: "mset (drop k' ev') = mset (map ((!) ?ev2) [Suc k..<Suc j]) +
           filter_mset ?keep (mset (map ((!) ?ev2) [Suc j..<length ?ev2]))"
        using "1.IH"(1) [OF True _ _ _ run] kp True "1.prems"(1) by simp
      have tail: "map ((!) ?ev2) [Suc j..<length ?ev2] = map ((!) ev) [Suc j..<length ev]"
        using seg_update_outside [of j "Suc j" "length ev" ev "ev ! k"] by simp
      have front: "mset (map ((!) ?ev2) [Suc k..<Suc j]) = mset (map ((!) ev) [k..<j])"
      proof (cases "k < j")
        case False
        then show ?thesis using "1.prems"(1) by simp
      next
        case lt: True
        have "map ((!) ?ev2) [Suc k..<Suc j] = map ((!) ?ev2) [Suc k..<j] @ [?ev2 ! j]"
          using lt by simp
        also have "?ev2 ! j = ev ! k" using True by simp
        also have "map ((!) ?ev2) [Suc k..<j] = map ((!) ev) [Suc k..<j]"
          by (rule seg_update_outside) simp
        finally have a: "map ((!) ?ev2) [Suc k..<Suc j] = map ((!) ev) [Suc k..<j] @ [ev ! k]" .
        show ?thesis unfolding a seg_Cons [OF lt] by (simp del: mset_map mset_upt)
      qed
      show ?thesis using ih [unfolded tail front] kp unfolding segj
        by (simp del: mset_map mset_upt)
    qed
  qed
qed

lemma Rescue_bucket_mset:
  "mset (Rescue_bucket tms ev) = filter_mset (\<lambda>c. GetRefCount tms c = 0) (mset ev)"
proof -
  obtain ev' k' where run: "Rescue_scan tms ev 0 0 = (ev', k')"
    by (cases "Rescue_scan tms ev 0 0") auto
  from Rescue_scan_mset [OF _ _ run]
  have "mset (drop k' ev') =
          filter_mset (\<lambda>c. GetRefCount tms c = 0) (mset (map ((!) ev) [0..<length ev]))"
    by simp
  then show ?thesis by (cases "k' = 0") (simp_all add: Rescue_bucket_def run map_nth)
qed

lemma length_Rescue [simp]: "length (Rescue m tms) = length m"
  by (simp add: Rescue_def)

lemma Rescue_nth_mset:
  "i < length m \<Longrightarrow>
     mset (Rescue m tms ! i) = filter_mset (\<lambda>c. GetRefCount tms c = 0) (mset (m ! i))"
  by (simp add: Rescue_def Rescue_bucket_mset)

lemma AbandonPending_fields:
  "m_tileMappingState (AbandonPending sr) = m_tileMappingState sr"
  "m_pendingEvictions (AbandonPending sr) = m_pendingEvictions sr"
  by (simp_all add: AbandonPending_def split: prod.splits)

text \<open>
  C7: when \<open>ProcessFeedback\<close> does not take the zero-refcount path, finds a feedback
  buffer to consume, and the update of the references fails no assertion (leaving the
  state \<open>sr2\<close>), it returns a state with the same tile mapping state in which: the
  pending loads are, as a multiset, those of \<open>sr2\<close> whose reference count is positive,
  so every remaining one has a positive count; every bucket of the eviction ring is, as
  a multiset, that of \<open>sr2\<close> restricted to the coordinates whose count is zero, so
  every remaining one has count zero; and no bucket shares a coordinate with the pending
  loads.
\<close>

theorem ProcessFeedback_pending_disjoint:
  assumes "\<not> m_setZeroRefCounts sr"
    and "find_feedback fence (m_queuedFeedback sr) = (queue, feedbackIndex, latest)"
    and "feedbackIndex \<noteq> 0"
    and "update_references (readback ! (feedbackIndex - 1))
           (feedback_pitch rt (m_tileReferencesWidth sr)) (sr\<lparr>m_queuedFeedback := queue\<rparr>)
         = Some (sr2, changed)"
  shows "\<exists>sr'. ProcessFeedback rt readback sr fence = Some sr' \<and>
           m_tileMappingState sr' = m_tileMappingState sr2 \<and>
           mset (m_pendingTileLoads sr') =
             filter_mset (\<lambda>c. 0 < GetRefCount (m_tileMappingState sr2) c)
               (mset (m_pendingTileLoads sr2)) \<and>
           (\<forall>c \<in> set (m_pendingTileLoads sr'). 0 < GetRefCount (m_tileMappingState sr') c) \<and>
           length (m_pendingEvictions sr') = length (m_pendingEvictions sr2) \<and>
           (\<forall>i < length (m_pendingEvictions sr2).
              mset (m_pendingEvictions sr' ! i) =
                filter_mset (\<lambda>c. GetRefCount (m_tileMappingState sr2) c = 0)
                  (mset (m_pendingEvictions sr2 ! i))) \<and>
           (\<forall>b \<in> set (m_pendingEvictions sr'). \<forall>c \<in> set b.
              GetRefCount (m_tileMappingState sr') c = 0) \<and>
           (\<forall>b \<in> set (m_pendingEvictions sr'). set b \<inter> set (m_pendingTileLoads sr') = {})"
proof -
  let ?tms = "m_tileMappingState sr2"
  define sr3 where "sr3 = (if changed then sr2\<lparr>m_refCountsZero := False\<rparr> else sr2)"
  define sr4 where "sr4 = AbandonPending sr3"
  define sr5 where
    "sr5 = sr4\<lparr>m_pendingEvictions := Rescue (m_pendingEvictions sr4) (m_tileMappingState sr4)\<rparr>"
  define sr' where "sr' = (if changed then SetResidencyChanged sr5 else sr5)"
  have run: "ProcessFeedback rt readback sr fence = Some sr'"
    using assms by (simp add: ProcessFeedback_def Let_def sr'_def sr5_def sr4_def sr3_def)
  have f3: "m_tileMappingState sr3 = ?tms" "m_pendingTileLoads sr3 = m_pendingTileLoads sr2"
    "m_pendingEvictions sr3 = m_pendingEvictions sr2"
    by (simp_all add: sr3_def)
  have f4: "m_tileMappingState sr4 = ?tms" "m_pendingEvictions sr4 = m_pendingEvictions sr2"
    by (simp_all add: sr4_def AbandonPending_fields f3)
  have tms: "m_tileMappingState sr' = ?tms"
    by (simp add: sr'_def sr5_def SetResidencyChanged_def f4)
  have pend: "m_pendingTileLoads sr' = m_pendingTileLoads sr4"
    by (simp add: sr'_def sr5_def SetResidencyChanged_def)
  have ring: "m_pendingEvictions sr' = Rescue (m_pendingEvictions sr2) ?tms"
    by (simp add: sr'_def sr5_def SetResidencyChanged_def f4)
  have nz: "\<And>w :: 32 word. (0 < w) = (w \<noteq> 0)" by (simp add: word_neq_0_conv)
  have pm: "mset (m_pendingTileLoads sr') =
              filter_mset (\<lambda>c. 0 < GetRefCount ?tms c) (mset (m_pendingTileLoads sr2))"
    unfolding pend sr4_def AbandonPending_mset f3 by (simp add: nz)
  have pall: "\<forall>c \<in> set (m_pendingTileLoads sr'). 0 < GetRefCount ?tms c"
  proof
    fix c assume "c \<in> set (m_pendingTileLoads sr')"
    then have "c \<in># mset (m_pendingTileLoads sr')" by simp
    then show "0 < GetRefCount ?tms c" unfolding pm by simp
  qed
  have rlen: "length (m_pendingEvictions sr') = length (m_pendingEvictions sr2)"
    unfolding ring by simp
  have rm: "\<forall>i < length (m_pendingEvictions sr2).
              mset (m_pendingEvictions sr' ! i) =
                filter_mset (\<lambda>c. GetRefCount ?tms c = 0) (mset (m_pendingEvictions sr2 ! i))"
    unfolding ring by (simp add: Rescue_nth_mset)
  have rall: "\<forall>b \<in> set (m_pendingEvictions sr'). \<forall>c \<in> set b. GetRefCount ?tms c = 0"
  proof (intro ballI)
    fix b c assume "b \<in> set (m_pendingEvictions sr')" and c: "c \<in> set b"
    then obtain i where i: "i < length (m_pendingEvictions sr2)" "b = m_pendingEvictions sr' ! i"
      unfolding rlen [symmetric] by (auto simp: in_set_conv_nth)
    from c have "c \<in># mset b" by simp
    then show "GetRefCount ?tms c = 0" using rm i by simp
  qed
  have disj: "\<forall>b \<in> set (m_pendingEvictions sr'). set b \<inter> set (m_pendingTileLoads sr') = {}"
  proof
    fix b assume b: "b \<in> set (m_pendingEvictions sr')"
    show "set b \<inter> set (m_pendingTileLoads sr') = {}"
    proof (rule ccontr)
      assume "set b \<inter> set (m_pendingTileLoads sr') \<noteq> {}"
      then obtain c where "c \<in> set b" "c \<in> set (m_pendingTileLoads sr')" by blast
      then have "GetRefCount ?tms c = 0" "0 < GetRefCount ?tms c" using b rall pall by blast+
      then show False by simp
    qed
  qed
  show ?thesis
    using run pm pall rlen rm rall disj unfolding tms [symmetric]
    by (intro exI [of _ sr']) blast
qed

lemma two_tiles_find_feedback: "find_feedback 6 (m_queuedFeedback two_tiles) =
   ([\<lparr>m_renderFenceForFeedback = 5, m_feedbackQueued = False\<rparr>,
     \<lparr>m_renderFenceForFeedback = 7, m_feedbackQueued = True\<rparr>], 1, 5)"
  by (simp add: find_feedback_def two_tiles_def select_feedback_def upt_rec)

lemma regions_2_1: "regions 2 (Suc 0) = [(0, 0), (Suc 0, 0)]"
  by (simp add: regions_def upt_rec)

lemma two_tiles_update_references: "update_references [0, 1] 2 (two_tiles\<lparr>m_queuedFeedback := q\<rparr>) =
  Some (two_tiles\<lparr>m_queuedFeedback := q,
      m_tileMappingState := \<lparr>m_resident = [[[NotResident, NotResident]]],
         m_refcounts = [[[1, 0]]],
         m_heapIndices = [[[InvalidIndex, InvalidIndex]]]\<rparr>,
      m_pendingEvictions := [[\<lparr>X = 1, Y = 0, Z = 0, Subresource = 0\<rparr>], [\<lparr>X = 0, Y = 0, Z = 0, Subresource = 0\<rparr>], []],
      m_pendingTileLoads := [\<lparr>X = 1, Y = 0, Z = 0, Subresource = 0\<rparr>, \<lparr>X = 0, Y = 0, Z = 0, Subresource = 0\<rparr>],
      m_tileReferences := [0, 1]\<rparr>, True)"
  by (simp add: update_references_def two_tiles_def regions_2_1 feedback_region_def
        SetMinMip_finer SetMinMip_coarser AddTileRef_def DecTileRef_def GetRefCount_def
        SetRefCount_def layer_at_def layer_upd_def Append_def Let_def)


theorem ProcessFeedback_pending_disjoint_witness:
  "\<exists>sr'. ProcessFeedback False [[0, 1], []] two_tiles 6 = Some sr' \<and>
         mset (m_pendingTileLoads sr') = {#\<lparr>X = 0, Y = 0, Z = 0, Subresource = 0\<rparr>#} \<and>
         (\<forall>c \<in> set (m_pendingTileLoads sr'). 0 < GetRefCount (m_tileMappingState sr') c) \<and>
         mset (m_pendingEvictions sr' ! 1) = {#} \<and>
         (\<forall>b \<in> set (m_pendingEvictions sr'). set b \<inter> set (m_pendingTileLoads sr') = {})"
proof -
  let ?q = "[\<lparr>m_renderFenceForFeedback = 5, m_feedbackQueued = False\<rparr>,
             \<lparr>m_renderFenceForFeedback = 7, m_feedbackQueued = True\<rparr>]"
  have h1: "\<not> m_setZeroRefCounts two_tiles" by (simp add: two_tiles_def)
  have h3: "(1::nat) \<noteq> 0" by simp
  have h4: "update_references ([[0, 1], []] ! (1 - 1))
              (feedback_pitch False (m_tileReferencesWidth two_tiles))
              (two_tiles\<lparr>m_queuedFeedback := ?q\<rparr>) =
            Some (two_tiles\<lparr>m_queuedFeedback := ?q,
      m_tileMappingState := \<lparr>m_resident = [[[NotResident, NotResident]]],
         m_refcounts = [[[1, 0]]],
         m_heapIndices = [[[InvalidIndex, InvalidIndex]]]\<rparr>,
      m_pendingEvictions := [[\<lparr>X = 1, Y = 0, Z = 0, Subresource = 0\<rparr>], [\<lparr>X = 0, Y = 0, Z = 0, Subresource = 0\<rparr>], []],
      m_pendingTileLoads := [\<lparr>X = 1, Y = 0, Z = 0, Subresource = 0\<rparr>, \<lparr>X = 0, Y = 0, Z = 0, Subresource = 0\<rparr>],
      m_tileReferences := [0, 1]\<rparr>, True)"
    using two_tiles_update_references [of ?q] by (simp add: feedback_pitch_def two_tiles_def)
  from ProcessFeedback_pending_disjoint [OF h1 two_tiles_find_feedback h3 h4]
  obtain sr' where run: "ProcessFeedback False [[0, 1], []] two_tiles 6 = Some sr'"
    and p: "mset (m_pendingTileLoads sr') = {#\<lparr>X = 0, Y = 0, Z = 0, Subresource = 0\<rparr>#}"
    and pz: "\<forall>c \<in> set (m_pendingTileLoads sr'). 0 < GetRefCount (m_tileMappingState sr') c"
    and r: "\<forall>i < 3. mset (m_pendingEvictions sr' ! i) =
              filter_mset (\<lambda>c. [[[1, 0 :: 32 word]]] ! Subresource c ! Y c ! X c = 0)
                (mset ([[\<lparr>X = 1, Y = 0, Z = 0, Subresource = 0\<rparr>],
                        [\<lparr>X = 0, Y = 0, Z = 0, Subresource = 0\<rparr>], []] ! i))"
    and d: "\<forall>b \<in> set (m_pendingEvictions sr'). set b \<inter> set (m_pendingTileLoads sr') = {}"
    by (auto simp: GetRefCount_def layer_at_def)
  from r [rule_format, of 1] have "mset (m_pendingEvictions sr' ! 1) = {#}" by simp
  with run p pz d show ?thesis by blast
qed

section \<open>The cold load\<close>

lemma replicate_4_2: "replicate 4 a = [a, a, a, a]" "replicate 2 a = [a, a]"
  by (simp_all add: numeral_eq_Suc)

lemma cold_Init: "Init 4 [(4, 4), (2, 2), (1, 1), (1, 1)] = Some (m_tileMappingState cold_4x4)"
  by (simp add: Init_def cold_4x4_def upt_rec replicate_4_2)

lemma regions_4_4:
  "regions 4 4 =
     [(0, 0), (Suc 0, 0), (2, 0), (3, 0), (0, Suc 0), (Suc 0, Suc 0), (2, Suc 0), (3, Suc 0),
      (0, 2), (Suc 0, 2), (2, 2), (3, 2), (0, 3), (Suc 0, 3), (2, 3), (3, 3)]"
  by (simp add: regions_def upt_rec)

lemma cold_find_feedback:
  "find_feedback 10 (m_queuedFeedback cold_4x4) =
     ([\<lparr>m_renderFenceForFeedback = 10, m_feedbackQueued = False\<rparr>,
       \<lparr>m_renderFenceForFeedback = 4294967295, m_feedbackQueued = False\<rparr>], 1, 10)"
  by (simp add: find_feedback_def cold_4x4_def select_feedback_def upt_rec)

lemma cold_update_references:
  "update_references cold_feedback 4 (cold_4x4\<lparr>m_queuedFeedback := q\<rparr>) =
     Some (cold_4x4\<lparr>m_queuedFeedback := q,
             m_tileMappingState := (m_tileMappingState cold_4x4)
               \<lparr>m_refcounts := [[[1, 0, 0, 0], [0, 0, 0, 0], [0, 0, 0, 0], [0, 0, 0, 0]],
                  [[1, 0], [0, 0]], [[1]], [[1]]]\<rparr>,
             m_pendingTileLoads :=
               [\<lparr>X = 0, Y = 0, Z = 0, Subresource = 3\<rparr>,
                \<lparr>X = 0, Y = 0, Z = 0, Subresource = 2\<rparr>,
                \<lparr>X = 0, Y = 0, Z = 0, Subresource = 1\<rparr>,
                \<lparr>X = 0, Y = 0, Z = 0, Subresource = 0\<rparr>],
             m_tileReferences := [0, 4, 4, 4, 4, 4, 4, 4, 4, 4, 4, 4, 4, 4, 4, 4]\<rparr>, True)"
  by (simp add: update_references_def cold_4x4_def cold_feedback_def regions_4_4 feedback_region_def
        SetMinMip_finer SetMinMip_same AddTileRef_def GetRefCount_def
        SetRefCount_def layer_at_def layer_upd_def Let_def upt_rec)


lemma cold_ProcessFeedback:
  "ProcessFeedback False [cold_feedback, []] cold_4x4 10 =
     Some (cold_4x4\<lparr>m_queuedFeedback :=
               [\<lparr>m_renderFenceForFeedback = 10, m_feedbackQueued = False\<rparr>,
                \<lparr>m_renderFenceForFeedback = 4294967295, m_feedbackQueued = False\<rparr>],
             m_tileMappingState := (m_tileMappingState cold_4x4)
               \<lparr>m_refcounts := [[[1, 0, 0, 0], [0, 0, 0, 0], [0, 0, 0, 0], [0, 0, 0, 0]],
                  [[1, 0], [0, 0]], [[1]], [[1]]]\<rparr>,
             m_pendingTileLoads :=
               [\<lparr>X = 0, Y = 0, Z = 0, Subresource = 3\<rparr>,
                \<lparr>X = 0, Y = 0, Z = 0, Subresource = 2\<rparr>,
                \<lparr>X = 0, Y = 0, Z = 0, Subresource = 1\<rparr>,
                \<lparr>X = 0, Y = 0, Z = 0, Subresource = 0\<rparr>],
             m_tileReferences := [0, 4, 4, 4, 4, 4, 4, 4, 4, 4, 4, 4, 4, 4, 4, 4],
             m_refCountsZero := False,
             m_tileResidencyChanged := True\<rparr>)"
proof -
  have w: "feedback_pitch False (m_tileReferencesWidth cold_4x4) = 4"
    by (simp add: feedback_pitch_def cold_4x4_def)
  have z: "\<not> m_setZeroRefCounts cold_4x4" by (simp add: cold_4x4_def)
  show ?thesis
    unfolding ProcessFeedback_def
    by (simp add: z cold_find_feedback w cold_update_references Let_def)
       (simp add: cold_4x4_def AbandonPending_def AbandonPending_loop.simps Rescue_def
          Rescue_bucket_def Rescue_scan.simps GetRefCount_def layer_at_def
          SetResidencyChanged_def)
qed


lemma GetRefCount_SetRefCount_same:
  "in_layer (m_refcounts tms) (X c) (Y c) (Subresource c) \<Longrightarrow>
     GetRefCount (SetRefCount tms c n) c = n"
  by (simp add: GetRefCount_def SetRefCount_def layer_at_upd_same)

text \<open>
  C3: when the desired mip \<open>d\<close> is finer than the current mip \<open>c\<close>, \<open>SetMinMip\<close>
  is the sequence of calls of \<open>AddTileRef\<close> on \<open>(x >> k, y >> k, k)\<close> for
  \<open>k = c - 1\<close> down to \<open>d\<close>; when it is coarser, it is the sequence of calls of
  \<open>DecTileRef\<close> for \<open>k = c\<close> up to \<open>d - 1\<close> (a failed assertion ends either
  sequence). A call of \<open>AddTileRef\<close> on a tile of the grid whose count is not all ones
  appends the coordinate to the pending loads iff the count was 0, and increments the
  count. On the cold 4 by 4 grid with feedback 0 at region (0, 0), one pass of
  \<open>ProcessFeedback\<close> leaves the pending loads (0,0,3), (0,0,2), (0,0,1), (0,0,0) and
  the counts of these four tiles at 1.
\<close>

theorem SetMinMip_order:
  "(d < c \<longrightarrow>
      SetMinMip sr c x y d =
        option_fold (\<lambda>k sr'. AddTileRef sr' (drop_bit k x) (drop_bit k y) k) (rev [d..<c]) sr) \<and>
   (c < d \<longrightarrow>
      SetMinMip sr c x y d =
        option_fold (\<lambda>k sr'. DecTileRef sr' (drop_bit k x) (drop_bit k y) k) [c..<d] sr) \<and>
   (in_layer (m_refcounts (m_tileMappingState sr)) tx ty ts \<and>
    GetRefCount (m_tileMappingState sr) \<lparr>X = tx, Y = ty, Z = 0, Subresource = ts\<rparr> \<noteq> 0xFFFFFFFF \<longrightarrow>
      (\<exists>sr'. AddTileRef sr tx ty ts = Some sr' \<and>
         m_pendingTileLoads sr' =
           (if GetRefCount (m_tileMappingState sr) \<lparr>X = tx, Y = ty, Z = 0, Subresource = ts\<rparr> = 0
            then m_pendingTileLoads sr @ [\<lparr>X = tx, Y = ty, Z = 0, Subresource = ts\<rparr>]
            else m_pendingTileLoads sr) \<and>
         GetRefCount (m_tileMappingState sr') \<lparr>X = tx, Y = ty, Z = 0, Subresource = ts\<rparr> =
           GetRefCount (m_tileMappingState sr) \<lparr>X = tx, Y = ty, Z = 0, Subresource = ts\<rparr> + 1)) \<and>
   (\<exists>sr'. ProcessFeedback False [cold_feedback, []] cold_4x4 10 = Some sr' \<and>
      m_pendingTileLoads sr' =
        [\<lparr>X = 0, Y = 0, Z = 0, Subresource = 3\<rparr>, \<lparr>X = 0, Y = 0, Z = 0, Subresource = 2\<rparr>,
         \<lparr>X = 0, Y = 0, Z = 0, Subresource = 1\<rparr>, \<lparr>X = 0, Y = 0, Z = 0, Subresource = 0\<rparr>] \<and>
      map (\<lambda>k. GetRefCount (m_tileMappingState sr') \<lparr>X = 0, Y = 0, Z = 0, Subresource = k\<rparr>)
        [0, 1, 2, 3] = [1, 1, 1, 1])"
proof (intro conjI impI)
  assume "d < c"
  then show "SetMinMip sr c x y d =
        option_fold (\<lambda>k sr'. AddTileRef sr' (drop_bit k x) (drop_bit k y) k) (rev [d..<c]) sr"
    by (rule SetMinMip_finer)
next
  assume "c < d"
  then show "SetMinMip sr c x y d =
        option_fold (\<lambda>k sr'. DecTileRef sr' (drop_bit k x) (drop_bit k y) k) [c..<d] sr"
    by (rule SetMinMip_coarser)
next
  let ?c = "\<lparr>X = tx, Y = ty, Z = 0, Subresource = ts\<rparr>"
  assume a: "in_layer (m_refcounts (m_tileMappingState sr)) tx ty ts \<and>
    GetRefCount (m_tileMappingState sr) ?c \<noteq> 0xFFFFFFFF"
  then have "GetRefCount (SetRefCount (m_tileMappingState sr) ?c
               (GetRefCount (m_tileMappingState sr) ?c + 1)) ?c =
             GetRefCount (m_tileMappingState sr) ?c + 1"
    by (intro GetRefCount_SetRefCount_same) simp
  with a show "\<exists>sr'. AddTileRef sr tx ty ts = Some sr' \<and>
         m_pendingTileLoads sr' =
           (if GetRefCount (m_tileMappingState sr) ?c = 0
            then m_pendingTileLoads sr @ [?c] else m_pendingTileLoads sr) \<and>
         GetRefCount (m_tileMappingState sr') ?c = GetRefCount (m_tileMappingState sr) ?c + 1"
    by (auto simp: AddTileRef_def Let_def)
next
  show "\<exists>sr'. ProcessFeedback False [cold_feedback, []] cold_4x4 10 = Some sr' \<and>
      m_pendingTileLoads sr' =
        [\<lparr>X = 0, Y = 0, Z = 0, Subresource = 3\<rparr>, \<lparr>X = 0, Y = 0, Z = 0, Subresource = 2\<rparr>,
         \<lparr>X = 0, Y = 0, Z = 0, Subresource = 1\<rparr>, \<lparr>X = 0, Y = 0, Z = 0, Subresource = 0\<rparr>] \<and>
      map (\<lambda>k. GetRefCount (m_tileMappingState sr') \<lparr>X = 0, Y = 0, Z = 0, Subresource = k\<rparr>)
        [0, 1, 2, 3] = [1, 1, 1, 1]"
    unfolding cold_ProcessFeedback by (simp add: GetRefCount_def layer_at_def)
qed

theorem SetMinMip_order_witness:
  "SetMinMip cold_4x4 4 0 0 0 =
     option_fold (\<lambda>k sr'. AddTileRef sr' (drop_bit k 0) (drop_bit k 0) k) [3, 2, 1, 0] cold_4x4 \<and>
   SetMinMip two_tiles 0 1 0 1 =
     option_fold (\<lambda>k sr'. DecTileRef sr' (drop_bit k 1) (drop_bit k 0) k) [0] two_tiles \<and>
   (\<exists>sr'. AddTileRef cold_4x4 0 0 3 = Some sr' \<and>
      m_pendingTileLoads sr' = [\<lparr>X = 0, Y = 0, Z = 0, Subresource = 3\<rparr>] \<and>
      GetRefCount (m_tileMappingState sr') \<lparr>X = 0, Y = 0, Z = 0, Subresource = 3\<rparr> = 1)"
proof -
  have r: "rev [0..<4] = [3, 2, 1, 0]" "[0..<1] = [0]" by (simp_all add: upt_rec)
  have i: "in_layer (m_refcounts (m_tileMappingState cold_4x4)) 0 0 3"
    by (simp add: in_layer_def cold_4x4_def)
  have g: "GetRefCount (m_tileMappingState cold_4x4) \<lparr>X = 0, Y = 0, Z = 0, Subresource = 3\<rparr> = 0"
    "m_pendingTileLoads cold_4x4 = []"
    by (simp_all add: GetRefCount_def layer_at_def cold_4x4_def)
  show ?thesis
    using SetMinMip_order [of 0 4 cold_4x4 0 0 0 0 3] SetMinMip_order [of 1 0 two_tiles 1 0 0 0 0]
    by (simp add: r i g)
qed

section \<open>Queueing the ready evictions\<close>

lemma layer_upd_outside: "\<not> in_layer g x y s \<Longrightarrow> layer_upd g x y s v = g"
  by (auto simp: in_layer_def layer_upd_def list_update_beyond not_less)

lemma layer_at_upd:
  "layer_at (layer_upd g x y s v) x' y' s' =
     (if (x', y', s') = (x, y, s) \<and> in_layer g x y s then v else layer_at g x' y' s')"
  by (cases "in_layer g x y s")
     (auto simp: layer_at_upd_same layer_at_upd_other layer_upd_outside)

lemma GetResidency_Set:
  "GetResidency (SetEvicting tms c) c' =
     (if same_cell c c' \<and> in_layer (m_resident tms) (X c) (Y c) (Subresource c) then Evicting
      else GetResidency tms c')"
  "GetResidency (SetLoading tms c) c' =
     (if same_cell c c' \<and> in_layer (m_resident tms) (X c) (Y c) (Subresource c) then Loading
      else GetResidency tms c')"
  "GetResidency (SetResident tms c) c' =
     (if same_cell c c' \<and> in_layer (m_resident tms) (X c) (Y c) (Subresource c) then Resident
      else GetResidency tms c')"
  "GetResidency (SetNotResident tms c) c' =
     (if same_cell c c' \<and> in_layer (m_resident tms) (X c) (Y c) (Subresource c) then NotResident
      else GetResidency tms c')"
  "GetResidency (SetHeapIndex tms c i) c' = GetResidency tms c'"
  "GetResidency (SetRefCount tms c n) c' = GetResidency tms c'"
  by (auto simp: GetResidency_def SetEvicting_def SetLoading_def SetResident_def
        SetNotResident_def SetHeapIndex_def SetRefCount_def layer_at_upd same_cell_def)

lemma GetHeapIndex_Set:
  "GetHeapIndex (SetHeapIndex tms c i) c' =
     (if same_cell c c' \<and> in_layer (m_heapIndices tms) (X c) (Y c) (Subresource c) then i
      else GetHeapIndex tms c')"
  "GetHeapIndex (SetEvicting tms c) c' = GetHeapIndex tms c'"
  "GetHeapIndex (SetLoading tms c) c' = GetHeapIndex tms c'"
  "GetHeapIndex (SetResident tms c) c' = GetHeapIndex tms c'"
  "GetHeapIndex (SetNotResident tms c) c' = GetHeapIndex tms c'"
  "GetHeapIndex (SetRefCount tms c n) c' = GetHeapIndex tms c'"
  by (auto simp: GetHeapIndex_def SetEvicting_def SetLoading_def SetResident_def
        SetNotResident_def SetHeapIndex_def SetRefCount_def layer_at_upd same_cell_def)

lemma GetRefCount_Set:
  "GetRefCount (SetRefCount tms c n) c' =
     (if same_cell c c' \<and> in_layer (m_refcounts tms) (X c) (Y c) (Subresource c) then n
      else GetRefCount tms c')"
  "GetRefCount (SetEvicting tms c) c' = GetRefCount tms c'"
  "GetRefCount (SetLoading tms c) c' = GetRefCount tms c'"
  "GetRefCount (SetResident tms c) c' = GetRefCount tms c'"
  "GetRefCount (SetNotResident tms c) c' = GetRefCount tms c'"
  "GetRefCount (SetHeapIndex tms c i) c' = GetRefCount tms c'"
  by (auto simp: GetRefCount_def SetEvicting_def SetLoading_def SetResident_def
        SetNotResident_def SetHeapIndex_def SetRefCount_def layer_at_upd same_cell_def)

lemma valid_coord_Set [simp]:
  "valid_coord (SetEvicting tms c) c' = valid_coord tms c'"
  "valid_coord (SetLoading tms c) c' = valid_coord tms c'"
  "valid_coord (SetResident tms c) c' = valid_coord tms c'"
  "valid_coord (SetNotResident tms c) c' = valid_coord tms c'"
  "valid_coord (SetHeapIndex tms c i) c' = valid_coord tms c'"
  "valid_coord (SetRefCount tms c n) c' = valid_coord tms c'"
  by (simp_all add: valid_coord_def SetEvicting_def SetLoading_def SetResident_def
        SetNotResident_def SetHeapIndex_def SetRefCount_def)

lemma same_cell_refl [simp]: "same_cell c c"
  by (simp add: same_cell_def)

lemma evict_step_refcount:
  "evict_step (tms, h, ul, d) c = (tms', h', ul', d') \<Longrightarrow> GetRefCount tms' c' = GetRefCount tms c'"
  by (auto simp: evict_step_def GetRefCount_Set split: Residency.splits)

lemma QueuePendingTileEvictions_loop_foldl:
  assumes "numDelayed \<le> j" and "j \<le> length evictions"
    and "\<forall>c \<in> set (drop j evictions). GetRefCount tms c = 0"
  shows "\<exists>tms' h' ul' evictions' numDelayed'.
           QueuePendingTileEvictions_loop tms h ul evictions j numDelayed =
             Some (tms', h', ul', evictions', numDelayed') \<and>
           foldl evict_step (tms, h, ul, take numDelayed evictions) (drop j evictions) =
             (tms', h', ul', take numDelayed' evictions')"
  using assms
proof (induction tms h ul evictions j numDelayed rule: QueuePendingTileEvictions_loop.induct)
  case (1 tms h ul evictions j numDelayed)
  show ?case
  proof (cases "j < length evictions")
    case False
    then have "QueuePendingTileEvictions_loop tms h ul evictions j numDelayed =
                 Some (tms, h, ul, evictions, numDelayed)"
      by (subst QueuePendingTileEvictions_loop.simps) simp
    then show ?thesis using False by simp
  next
    case True
    let ?c = "evictions ! j"
    have d: "drop j evictions = ?c # drop (Suc j) evictions"
      using True by (simp add: Cons_nth_drop_Suc)
    have rc: "GetRefCount tms ?c = 0" using "1.prems"(3) d by simp
    have rest: "\<forall>c \<in> set (drop (Suc j) evictions). GetRefCount tms c = 0"
      using "1.prems"(3) d by simp
    consider (res) "GetResidency tms ?c = Resident" | (load) "GetResidency tms ?c = Loading"
      | (other) "GetResidency tms ?c \<noteq> Resident" "GetResidency tms ?c \<noteq> Loading"
      by blast
    then show ?thesis
    proof cases
      case res
      let ?tms1 = "SetEvicting tms ?c"
      let ?h1 = "Free h (GetHeapIndex ?tms1 ?c)"
      let ?tms2 = "SetHeapIndex ?tms1 ?c InvalidIndex"
      let ?ul1 = "ul\<lparr>m_evictCoords := m_evictCoords ul @ [?c]\<rparr>"
      have eq: "QueuePendingTileEvictions_loop tms h ul evictions j numDelayed =
                QueuePendingTileEvictions_loop ?tms2 ?h1 ?ul1 evictions (Suc j) numDelayed"
        using True rc res by (subst QueuePendingTileEvictions_loop.simps) (simp add: Let_def)
      have rest2: "\<forall>c \<in> set (drop (Suc j) evictions). GetRefCount ?tms2 c = 0"
        using rest by (simp add: GetRefCount_Set)
      have ih: "\<exists>tms' h' ul' evictions' numDelayed'.
           QueuePendingTileEvictions_loop ?tms2 ?h1 ?ul1 evictions (Suc j) numDelayed =
             Some (tms', h', ul', evictions', numDelayed') \<and>
           foldl evict_step (?tms2, ?h1, ?ul1, take numDelayed evictions) (drop (Suc j) evictions) =
             (tms', h', ul', take numDelayed' evictions')"
        using "1.IH"(1) [OF True refl _ refl _ refl refl refl refl refl _ _ rest2]
          True rc res "1.prems"(1) by simp
      have st: "evict_step (tms, h, ul, take numDelayed evictions) ?c =
                  (?tms2, ?h1, ?ul1, take numDelayed evictions)"
        using res by (simp add: evict_step_def GetHeapIndex_Set)
      show ?thesis using ih unfolding eq d by (simp add: st)
    next
      case load
      let ?ev2 = "evictions[numDelayed := ?c]"
      have eq: "QueuePendingTileEvictions_loop tms h ul evictions j numDelayed =
                QueuePendingTileEvictions_loop tms h ul ?ev2 (Suc j) (Suc numDelayed)"
        using True rc load by (subst QueuePendingTileEvictions_loop.simps) (simp add: Let_def)
      have dr: "drop (Suc j) ?ev2 = drop (Suc j) evictions"
        using "1.prems"(1) by simp
      have tk: "take (Suc numDelayed) ?ev2 = take numDelayed evictions @ [?c]"
        using "1.prems"(1) True by (simp add: take_Suc_conv_app_nth)
      have rest2: "\<forall>c \<in> set (drop (Suc j) ?ev2). GetRefCount tms c = 0"
        using rest dr by simp
      have ih: "\<exists>tms' h' ul' evictions' numDelayed'.
           QueuePendingTileEvictions_loop tms h ul ?ev2 (Suc j) (Suc numDelayed) =
             Some (tms', h', ul', evictions', numDelayed') \<and>
           foldl evict_step (tms, h, ul, take (Suc numDelayed) ?ev2) (drop (Suc j) ?ev2) =
             (tms', h', ul', take numDelayed' evictions')"
        using "1.IH"(2) [OF True refl _ refl _ _ _ _ rest2] True rc load "1.prems"(1) by simp
      have st: "evict_step (tms, h, ul, take numDelayed evictions) ?c =
                  (tms, h, ul, take numDelayed evictions @ [?c])"
        using load by (simp add: evict_step_def)
      show ?thesis using ih unfolding eq d by (simp add: st dr tk)
    next
      case other
      have eq: "QueuePendingTileEvictions_loop tms h ul evictions j numDelayed =
                QueuePendingTileEvictions_loop tms h ul evictions (Suc j) numDelayed"
        using True rc other by (subst QueuePendingTileEvictions_loop.simps) (simp add: Let_def)
      have ih: "\<exists>tms' h' ul' evictions' numDelayed'.
           QueuePendingTileEvictions_loop tms h ul evictions (Suc j) numDelayed =
             Some (tms', h', ul', evictions', numDelayed') \<and>
           foldl evict_step (tms, h, ul, take numDelayed evictions) (drop (Suc j) evictions) =
             (tms', h', ul', take numDelayed' evictions')"
        using "1.IH"(3) [OF True refl _ refl _ _ _ _ rest] True rc other "1.prems"(1) by simp
      have st: "evict_step (tms, h, ul, take numDelayed evictions) ?c =
                  (tms, h, ul, take numDelayed evictions)"
        using other by (cases "GetResidency tms ?c") (simp_all add: evict_step_def)
      show ?thesis using ih unfolding eq d by (simp add: st)
    qed
  qed
qed

lemma tile_coord_Set [simp]:
  "tile_coord (SetEvicting tms c) c' = tile_coord tms c'"
  "tile_coord (SetLoading tms c) c' = tile_coord tms c'"
  "tile_coord (SetResident tms c) c' = tile_coord tms c'"
  "tile_coord (SetNotResident tms c) c' = tile_coord tms c'"
  "tile_coord (SetHeapIndex tms c i) c' = tile_coord tms c'"
  "tile_coord (SetRefCount tms c n) c' = tile_coord tms c'"
  by (simp_all add: tile_coord_def)

lemma same_cell_eq: "Z c = 0 \<Longrightarrow> Z c' = 0 \<Longrightarrow> same_cell c c' \<longleftrightarrow> c = (c' :: coord)"
  by (auto simp: same_cell_def)

lemma same_cell_Get:
  "same_cell c c' \<Longrightarrow> GetResidency tms c = GetResidency tms c'"
  "same_cell c c' \<Longrightarrow> GetHeapIndex tms c = GetHeapIndex tms c'"
  "same_cell c c' \<Longrightarrow> GetRefCount tms c = GetRefCount tms c'"
  by (simp_all add: same_cell_def GetResidency_def GetHeapIndex_def GetRefCount_def)

lemma same_cell_sym: "same_cell c c' \<Longrightarrow> same_cell c' c"
  by (simp add: same_cell_def)

lemma same_cell_trans: "same_cell a b \<Longrightarrow> same_cell b c \<Longrightarrow> same_cell a c"
  by (simp add: same_cell_def)

lemma m_refcounts_Set [simp]:
  "m_refcounts (SetEvicting tms c) = m_refcounts tms"
  "m_refcounts (SetLoading tms c) = m_refcounts tms"
  "m_refcounts (SetResident tms c) = m_refcounts tms"
  "m_refcounts (SetNotResident tms c) = m_refcounts tms"
  "m_refcounts (SetHeapIndex tms c i) = m_refcounts tms"
  by (simp_all add: SetEvicting_def SetLoading_def SetResident_def SetNotResident_def
        SetHeapIndex_def)

lemma m_heapIndices_Set [simp]:
  "m_heapIndices (SetEvicting tms c) = m_heapIndices tms"
  "m_heapIndices (SetLoading tms c) = m_heapIndices tms"
  "m_heapIndices (SetResident tms c) = m_heapIndices tms"
  "m_heapIndices (SetNotResident tms c) = m_heapIndices tms"
  "m_heapIndices (SetRefCount tms c n) = m_heapIndices tms"
  by (simp_all add: SetEvicting_def SetLoading_def SetResident_def SetNotResident_def
        SetRefCount_def)

lemma m_resident_Set [simp]:
  "m_resident (SetHeapIndex tms c i) = m_resident tms"
  "m_resident (SetRefCount tms c n) = m_resident tms"
  by (simp_all add: SetHeapIndex_def SetRefCount_def)

lemma foldl_evict_step:
  assumes "\<forall>c \<in> set cs. valid_coord tms c"
  shows "\<exists>tms' ev.
           foldl evict_step (tms, h, ul, d) cs =
             (tms', rev (map (GetHeapIndex tms) ev) @ h,
              ul\<lparr>m_evictCoords := m_evictCoords ul @ ev\<rparr>,
              d @ filter (\<lambda>c. GetResidency tms c = Loading) cs) \<and>
           set ev \<subseteq> {c \<in> set cs. GetResidency tms c = Resident} \<and>
           (\<forall>c \<in> set cs. GetResidency tms c = Resident \<longrightarrow> (\<exists>e \<in> set ev. same_cell e c)) \<and>
           (\<forall>i < length ev. \<forall>k < i. \<not> same_cell (ev ! k) (ev ! i)) \<and>
           (\<forall>c'. GetResidency tms' c' =
              (if GetResidency tms c' = Resident \<and> (\<exists>c \<in> set cs. same_cell c c') then Evicting
               else GetResidency tms c')) \<and>
           (\<forall>c'. GetHeapIndex tms' c' =
              (if GetResidency tms c' = Resident \<and> (\<exists>c \<in> set cs. same_cell c c') then InvalidIndex
               else GetHeapIndex tms c')) \<and>
           m_refcounts tms' = m_refcounts tms \<and>
           (\<forall>c'. valid_coord tms' c' = valid_coord tms c')"
  using assms
proof (induction cs arbitrary: tms h ul d)
  case Nil
  show ?case by (intro exI [of _ tms] exI [of _ "[]"]) simp
next
  case (Cons c cs)
  have vc: "valid_coord tms c" using Cons.prems by simp
  show ?case
  proof (cases "GetResidency tms c = Resident")
    case False
    have st: "evict_step (tms, h, ul, d) c =
                (tms, h, ul, d @ filter (\<lambda>c. GetResidency tms c = Loading) [c])"
      using False by (cases "GetResidency tms c") (simp_all add: evict_step_def)
    from Cons.IH [of tms h ul "d @ filter (\<lambda>c. GetResidency tms c = Loading) [c]"] Cons.prems
    obtain tms' ev where
      f: "foldl evict_step (tms, h, ul, d @ filter (\<lambda>c. GetResidency tms c = Loading) [c]) cs =
             (tms', rev (map (GetHeapIndex tms) ev) @ h,
              ul\<lparr>m_evictCoords := m_evictCoords ul @ ev\<rparr>,
              (d @ filter (\<lambda>c. GetResidency tms c = Loading) [c]) @
                filter (\<lambda>c. GetResidency tms c = Loading) cs)"
      and sub: "set ev \<subseteq> {c \<in> set cs. GetResidency tms c = Resident}"
      and ex: "\<forall>c \<in> set cs. GetResidency tms c = Resident \<longrightarrow> (\<exists>e \<in> set ev. same_cell e c)"
      and dist: "\<forall>i < length ev. \<forall>k < i. \<not> same_cell (ev ! k) (ev ! i)"
      and res: "\<forall>c'. GetResidency tms' c' =
              (if GetResidency tms c' = Resident \<and> (\<exists>c \<in> set cs. same_cell c c') then Evicting
               else GetResidency tms c')"
      and hp: "\<forall>c'. GetHeapIndex tms' c' =
              (if GetResidency tms c' = Resident \<and> (\<exists>c \<in> set cs. same_cell c c') then InvalidIndex
               else GetHeapIndex tms c')"
      and rcs: "m_refcounts tms' = m_refcounts tms"
      and val: "\<forall>c'. valid_coord tms' c' = valid_coord tms c'"
      by auto
    have nc: "\<And>c'. same_cell c c' \<Longrightarrow> GetResidency tms c' \<noteq> Resident"
      using False same_cell_Get(1) by metis
    show ?thesis
      apply (intro exI [of _ tms'] exI [of _ ev] conjI)
      subgoal using f st by simp
      subgoal using sub by auto
      subgoal using ex False by auto
      subgoal using dist by simp
      subgoal using res nc by (metis insert_iff list.set(2))
      subgoal using hp nc by (metis insert_iff list.set(2))
      subgoal using rcs by simp
      subgoal using val by simp
      done
  next
    case True
    let ?tms1 = "SetHeapIndex (SetEvicting tms c) c InvalidIndex"
    let ?h1 = "Free h (GetHeapIndex tms c)"
    let ?ul1 = "ul\<lparr>m_evictCoords := m_evictCoords ul @ [c]\<rparr>"
    have st: "evict_step (tms, h, ul, d) c = (?tms1, ?h1, ?ul1, d)"
      using True by (simp add: evict_step_def)
    have r1: "\<And>c'. GetResidency ?tms1 c' = (if same_cell c c' then Evicting else GetResidency tms c')"
      using vc by (simp add: GetResidency_Set valid_coord_def)
    have h1: "\<And>c'. GetHeapIndex ?tms1 c' = (if same_cell c c' then InvalidIndex else GetHeapIndex tms c')"
      using vc by (simp add: GetHeapIndex_Set valid_coord_def)
    have v1: "\<forall>c \<in> set cs. valid_coord ?tms1 c" using Cons.prems by simp
    from Cons.IH [of ?tms1 ?h1 ?ul1 d, OF v1]
    obtain tms' ev where
      f: "foldl evict_step (?tms1, ?h1, ?ul1, d) cs =
             (tms', rev (map (GetHeapIndex ?tms1) ev) @ ?h1,
              ?ul1\<lparr>m_evictCoords := m_evictCoords ?ul1 @ ev\<rparr>,
              d @ filter (\<lambda>c. GetResidency ?tms1 c = Loading) cs)"
      and sub: "set ev \<subseteq> {c \<in> set cs. GetResidency ?tms1 c = Resident}"
      and ex: "\<forall>c \<in> set cs. GetResidency ?tms1 c = Resident \<longrightarrow> (\<exists>e \<in> set ev. same_cell e c)"
      and dist: "\<forall>i < length ev. \<forall>k < i. \<not> same_cell (ev ! k) (ev ! i)"
      and res: "\<forall>c'. GetResidency tms' c' =
              (if GetResidency ?tms1 c' = Resident \<and> (\<exists>c \<in> set cs. same_cell c c') then Evicting
               else GetResidency ?tms1 c')"
      and hp: "\<forall>c'. GetHeapIndex tms' c' =
              (if GetResidency ?tms1 c' = Resident \<and> (\<exists>c \<in> set cs. same_cell c c') then InvalidIndex
               else GetHeapIndex ?tms1 c')"
      and rcs: "m_refcounts tms' = m_refcounts ?tms1"
      and val: "\<forall>c'. valid_coord tms' c' = valid_coord ?tms1 c'"
      by blast
    have evn: "\<forall>e \<in> set ev. \<not> same_cell c e \<and> GetResidency tms e = Resident"
      using sub r1 by (auto split: if_splits)
    have hmap: "map (GetHeapIndex ?tms1) ev = map (GetHeapIndex tms) ev"
      using evn h1 by simp
    have lmap: "filter (\<lambda>c. GetResidency ?tms1 c = Loading) cs =
                filter (\<lambda>c. GetResidency tms c = Loading) cs"
    proof (rule filter_cong [OF refl])
      fix x show "(GetResidency ?tms1 x = Loading) = (GetResidency tms x = Loading)"
        using r1 [of x] True same_cell_Get(1) [of c x tms] by auto
    qed
    have cL: "GetResidency tms c \<noteq> Loading" using True by simp
    show ?thesis
    proof (intro exI [of _ tms'] exI [of _ "c # ev"] conjI)
      show "foldl evict_step (tms, h, ul, d) (c # cs) =
             (tms', rev (map (GetHeapIndex tms) (c # ev)) @ h,
              ul\<lparr>m_evictCoords := m_evictCoords ul @ c # ev\<rparr>,
              d @ filter (\<lambda>c. GetResidency tms c = Loading) (c # cs))"
        using f st cL by (simp add: hmap lmap Free_def)
      show "set (c # ev) \<subseteq> {ca \<in> set (c # cs). GetResidency tms ca = Resident}"
        using evn sub True by auto
      show "\<forall>ca \<in> set (c # cs). GetResidency tms ca = Resident \<longrightarrow>
              (\<exists>e \<in> set (c # ev). same_cell e ca)"
      proof (intro ballI impI)
        fix ca assume ca: "ca \<in> set (c # cs)" and r: "GetResidency tms ca = Resident"
        show "\<exists>e \<in> set (c # ev). same_cell e ca"
        proof (cases "same_cell c ca")
          case True
          then show ?thesis by auto
        next
          case False
          then have "ca \<in> set cs" "GetResidency ?tms1 ca = Resident"
            using ca r r1 [of ca] by auto
          then show ?thesis using ex by auto
        qed
      qed
      show "\<forall>i < length (c # ev). \<forall>k < i. \<not> same_cell ((c # ev) ! k) ((c # ev) ! i)"
      proof (intro allI impI)
        fix i k assume i: "i < length (c # ev)" and k: "k < i"
        then obtain i' where i': "i = Suc i'" "i' < length ev" by (cases i) auto
        show "\<not> same_cell ((c # ev) ! k) ((c # ev) ! i)"
        proof (cases k)
          case 0
          then show ?thesis using evn i' by simp
        next
          case (Suc k')
          then show ?thesis using dist i' k by simp
        qed
      qed
      show "\<forall>c'. GetResidency tms' c' =
              (if GetResidency tms c' = Resident \<and> (\<exists>ca \<in> set (c # cs). same_cell ca c')
               then Evicting else GetResidency tms c')"
      proof
        fix c'
        show "GetResidency tms' c' =
              (if GetResidency tms c' = Resident \<and> (\<exists>ca \<in> set (c # cs). same_cell ca c')
               then Evicting else GetResidency tms c')"
        proof (cases "same_cell c c'")
          case sc: True
          then have "GetResidency tms c' = Resident" using True same_cell_Get(1) [of c c' tms] by simp
          moreover have "GetResidency tms' c' = Evicting"
            using res [rule_format, of c'] r1 [of c'] sc by simp
          ultimately show ?thesis using sc by auto
        next
          case sc: False
          then show ?thesis using res [rule_format, of c'] r1 [of c'] by auto
        qed
      qed
      show "\<forall>c'. GetHeapIndex tms' c' =
              (if GetResidency tms c' = Resident \<and> (\<exists>ca \<in> set (c # cs). same_cell ca c')
               then InvalidIndex else GetHeapIndex tms c')"
      proof
        fix c'
        show "GetHeapIndex tms' c' =
              (if GetResidency tms c' = Resident \<and> (\<exists>ca \<in> set (c # cs). same_cell ca c')
               then InvalidIndex else GetHeapIndex tms c')"
        proof (cases "same_cell c c'")
          case sc: True
          then have "GetResidency tms c' = Resident" using True same_cell_Get(1) [of c c' tms] by simp
          moreover have "GetHeapIndex tms' c' = InvalidIndex"
            using hp [rule_format, of c'] h1 [of c'] r1 [of c'] sc by simp
          ultimately show ?thesis using sc by auto
        next
          case sc: False
          then show ?thesis using hp [rule_format, of c'] h1 [of c'] r1 [of c'] by auto
        qed
      qed
      show "m_refcounts tms' = m_refcounts tms" using rcs by simp
      show "\<forall>c'. valid_coord tms' c' = valid_coord tms c'" using val by simp
    qed
  qed
qed

lemma GetReadyToEvict_Set:
  "m \<noteq> [] \<Longrightarrow> GetReadyToEvict (SetReadyToEvict m b) = b"
  by (cases m rule: rev_cases) (simp_all add: GetReadyToEvict_def SetReadyToEvict_def)

lemma butlast_SetReadyToEvict: "butlast (SetReadyToEvict m b) = butlast m"
  by (cases m rule: rev_cases) (simp_all add: SetReadyToEvict_def)

text \<open>
  C4: when the ready bucket is not empty and each of its coordinates is a tile of the
  grid with reference count 0, \<open>QueuePendingTileEvictions\<close> returns, and its result
  is the left-to-right fold of \<open>evict_step\<close> over the bucket. The new ready bucket is
  the coordinates of the old one that were \<open>Loading\<close>, in order. Each coordinate that
  was \<open>Resident\<close> is now \<open>Evicting\<close> with heap index \<open>InvalidIndex\<close>, is among
  the evict-coords of the update list, and its former heap index is in the free pool;
  nothing else is added to the evict-coords. A cell that was not \<open>Resident\<close>, or that
  no coordinate of the bucket names, keeps its residency and its heap index; reference
  counts, pending loads, the other buckets and the load part of the update list are
  unchanged.
\<close>

theorem QueuePendingTileEvictions_cases:
  assumes "m_pendingEvictions sr \<noteq> []"
    and "GetReadyToEvict (m_pendingEvictions sr) \<noteq> []"
    and "\<forall>c \<in> set (GetReadyToEvict (m_pendingEvictions sr)).
           GetRefCount (m_tileMappingState sr) c = 0 \<and> tile_coord (m_tileMappingState sr) c"
  shows "\<exists>sr' h' ul'.
           QueuePendingTileEvictions sr h ul = Some (sr', h', ul') \<and>
           (m_tileMappingState sr', h', ul', GetReadyToEvict (m_pendingEvictions sr')) =
             foldl evict_step (m_tileMappingState sr, h, ul, [])
               (GetReadyToEvict (m_pendingEvictions sr)) \<and>
           GetReadyToEvict (m_pendingEvictions sr') =
             filter (\<lambda>c. GetResidency (m_tileMappingState sr) c = Loading)
               (GetReadyToEvict (m_pendingEvictions sr)) \<and>
           (\<forall>c \<in> set (GetReadyToEvict (m_pendingEvictions sr)).
              GetResidency (m_tileMappingState sr) c = Resident \<longrightarrow>
                GetResidency (m_tileMappingState sr') c = Evicting \<and>
                GetHeapIndex (m_tileMappingState sr') c = InvalidIndex \<and>
                c \<in> set (m_evictCoords ul') \<and>
                GetHeapIndex (m_tileMappingState sr) c \<in> set h') \<and>
           set (m_evictCoords ul') =
             set (m_evictCoords ul) \<union>
             {c \<in> set (GetReadyToEvict (m_pendingEvictions sr)).
                GetResidency (m_tileMappingState sr) c = Resident} \<and>
           (\<forall>c. GetResidency (m_tileMappingState sr) c \<noteq> Resident \<or>
                (\<forall>r \<in> set (GetReadyToEvict (m_pendingEvictions sr)). \<not> same_cell r c) \<longrightarrow>
                GetResidency (m_tileMappingState sr') c = GetResidency (m_tileMappingState sr) c \<and>
                GetHeapIndex (m_tileMappingState sr') c = GetHeapIndex (m_tileMappingState sr) c) \<and>
           m_refcounts (m_tileMappingState sr') = m_refcounts (m_tileMappingState sr) \<and>
           m_pendingTileLoads sr' = m_pendingTileLoads sr \<and>
           butlast (m_pendingEvictions sr') = butlast (m_pendingEvictions sr) \<and>
           m_coords ul' = m_coords ul \<and> m_heapIndices_ul ul' = m_heapIndices_ul ul"
proof -
  let ?tms = "m_tileMappingState sr"
  let ?ready = "GetReadyToEvict (m_pendingEvictions sr)"
  have rc: "\<forall>c \<in> set (drop 0 ?ready). GetRefCount ?tms c = 0" using assms(3) by simp
  from QueuePendingTileEvictions_loop_foldl [of 0 0 ?ready ?tms h ul, OF _ _ rc]
  obtain tms' h' ul' ev' nd' where
    loop: "QueuePendingTileEvictions_loop ?tms h ul ?ready 0 0 = Some (tms', h', ul', ev', nd')"
    and fold: "foldl evict_step (?tms, h, ul, []) ?ready = (tms', h', ul', take nd' ev')"
    by auto
  have val: "\<forall>c \<in> set ?ready. valid_coord ?tms c" using assms(3) by (simp add: tile_coord_def)
  from foldl_evict_step [OF val, of h ul "[]"] fold
  obtain ev where
    h': "h' = rev (map (GetHeapIndex ?tms) ev) @ h"
    and ul': "ul' = ul\<lparr>m_evictCoords := m_evictCoords ul @ ev\<rparr>"
    and kept: "take nd' ev' = filter (\<lambda>c. GetResidency ?tms c = Loading) ?ready"
    and sub: "set ev \<subseteq> {c \<in> set ?ready. GetResidency ?tms c = Resident}"
    and ex: "\<forall>c \<in> set ?ready. GetResidency ?tms c = Resident \<longrightarrow> (\<exists>e \<in> set ev. same_cell e c)"
    and res: "\<forall>c'. GetResidency tms' c' =
              (if GetResidency ?tms c' = Resident \<and> (\<exists>c \<in> set ?ready. same_cell c c') then Evicting
               else GetResidency ?tms c')"
    and hp: "\<forall>c'. GetHeapIndex tms' c' =
              (if GetResidency ?tms c' = Resident \<and> (\<exists>c \<in> set ?ready. same_cell c c') then InvalidIndex
               else GetHeapIndex ?tms c')"
    and rcs: "m_refcounts tms' = m_refcounts ?tms"
    by auto
  define sr' where "sr' = sr\<lparr>m_tileMappingState := tms',
                      m_pendingEvictions :=
                        SetReadyToEvict (m_pendingEvictions sr) (take nd' ev')\<rparr>"
  have run: "QueuePendingTileEvictions sr h ul = Some (sr', h', ul')"
    using assms(2) loop by (simp add: QueuePendingTileEvictions_def sr'_def)
  have f1: "m_tileMappingState sr' = tms'" "m_pendingTileLoads sr' = m_pendingTileLoads sr"
    "m_pendingEvictions sr' = SetReadyToEvict (m_pendingEvictions sr) (take nd' ev')"
    by (simp_all add: sr'_def)
  have ready': "GetReadyToEvict (m_pendingEvictions sr') = take nd' ev'"
    using assms(1) by (simp add: f1 GetReadyToEvict_Set)
  have evset: "set ev = {c \<in> set ?ready. GetResidency ?tms c = Resident}"
  proof
    show "set ev \<subseteq> {c \<in> set ?ready. GetResidency ?tms c = Resident}" by (rule sub)
    show "{c \<in> set ?ready. GetResidency ?tms c = Resident} \<subseteq> set ev"
    proof
      fix c assume "c \<in> {c \<in> set ?ready. GetResidency ?tms c = Resident}"
      then have c: "c \<in> set ?ready" "GetResidency ?tms c = Resident" by simp_all
      then obtain e where e: "e \<in> set ev" "same_cell e c" using ex by blast
      then have "e \<in> set ?ready" using sub by blast
      then have "Z e = 0" "Z c = 0" using assms(3) c by (simp_all add: tile_coord_def)
      then have "e = c" using e by (simp add: same_cell_eq)
      then show "c \<in> set ev" using e by simp
    qed
  qed
  have a: "\<forall>c \<in> set ?ready. GetResidency ?tms c = Resident \<longrightarrow>
                GetResidency tms' c = Evicting \<and> GetHeapIndex tms' c = InvalidIndex \<and>
                c \<in> set (m_evictCoords ul') \<and> GetHeapIndex ?tms c \<in> set h'"
  proof (intro ballI impI)
    fix c assume c: "c \<in> set ?ready" "GetResidency ?tms c = Resident"
    then have "c \<in> set ev" using evset by simp
    moreover have "\<exists>r \<in> set ?ready. same_cell r c"
      using c(1) by (rule bexI [rotated]) simp
    ultimately show "GetResidency tms' c = Evicting \<and> GetHeapIndex tms' c = InvalidIndex \<and>
                c \<in> set (m_evictCoords ul') \<and> GetHeapIndex ?tms c \<in> set h'"
      using c res hp by (simp add: ul' h')
  qed
  have b: "\<forall>c. GetResidency ?tms c \<noteq> Resident \<or> (\<forall>r \<in> set ?ready. \<not> same_cell r c) \<longrightarrow>
                GetResidency tms' c = GetResidency ?tms c \<and> GetHeapIndex tms' c = GetHeapIndex ?tms c"
    using res hp by auto
  show ?thesis
    apply (intro exI [of _ sr'] exI [of _ h'] exI [of _ ul'] conjI)
    subgoal by (rule run)
    subgoal unfolding ready' by (simp add: fold f1)
    subgoal by (simp add: ready' kept)
    subgoal using a by (simp add: f1)
    subgoal by (simp add: ul' evset)
    subgoal using b by (simp add: f1)
    subgoal by (simp add: f1 rcs)
    subgoal by (simp add: f1)
    subgoal by (simp add: f1 butlast_SetReadyToEvict)
    subgoal by (simp add: ul')
    subgoal by (simp add: ul')
    done
qed

theorem QueuePendingTileEvictions_cases_witness:
  "\<exists>sr' h' ul'.
     QueuePendingTileEvictions four_tiles [9] empty_UpdateList = Some (sr', h', ul') \<and>
     GetReadyToEvict (m_pendingEvictions sr') = [\<lparr>X = 1, Y = 0, Z = 0, Subresource = 0\<rparr>] \<and>
     GetResidency (m_tileMappingState sr') \<lparr>X = 0, Y = 0, Z = 0, Subresource = 0\<rparr> = Evicting \<and>
     GetHeapIndex (m_tileMappingState sr') \<lparr>X = 0, Y = 0, Z = 0, Subresource = 0\<rparr> = InvalidIndex \<and>
     5 \<in> set h' \<and>
     set (m_evictCoords ul') = {\<lparr>X = 0, Y = 0, Z = 0, Subresource = 0\<rparr>}"
proof -
  have ready: "GetReadyToEvict (m_pendingEvictions four_tiles) =
         [\<lparr>X = 0, Y = 0, Z = 0, Subresource = 0\<rparr>, \<lparr>X = 1, Y = 0, Z = 0, Subresource = 0\<rparr>,
          \<lparr>X = 2, Y = 0, Z = 0, Subresource = 0\<rparr>, \<lparr>X = 3, Y = 0, Z = 0, Subresource = 0\<rparr>]"
    by (simp add: four_tiles_def GetReadyToEvict_def)
  have tms: "m_tileMappingState four_tiles =
        \<lparr>m_resident = [[[Resident, Loading, NotResident, Evicting]]],
         m_refcounts = [[[0, 0, 0, 0]]],
         m_heapIndices = [[[5, 6, InvalidIndex, InvalidIndex]]]\<rparr>"
    by (simp add: four_tiles_def)
  have h1: "m_pendingEvictions four_tiles \<noteq> []" by (simp add: four_tiles_def)
  have h2: "GetReadyToEvict (m_pendingEvictions four_tiles) \<noteq> []" by (simp add: ready)
  have h3: "\<forall>c \<in> set (GetReadyToEvict (m_pendingEvictions four_tiles)).
           GetRefCount (m_tileMappingState four_tiles) c = 0 \<and>
           tile_coord (m_tileMappingState four_tiles) c"
    by (simp add: ready tms GetRefCount_def layer_at_def tile_coord_def valid_coord_def in_layer_def)
  let ?c0 = "\<lparr>X = 0, Y = 0, Z = 0, Subresource = 0\<rparr>"
  have res: "GetResidency (m_tileMappingState four_tiles) =
               (\<lambda>c. [[[Resident, Loading, NotResident, Evicting]]] ! Subresource c ! Y c ! X c)"
    by (rule ext) (simp add: tms GetResidency_def layer_at_def)
  have flt: "filter (\<lambda>c. GetResidency (m_tileMappingState four_tiles) c = Loading)
               (GetReadyToEvict (m_pendingEvictions four_tiles)) =
             [\<lparr>X = 1, Y = 0, Z = 0, Subresource = 0\<rparr>]"
    by (simp add: ready res)
  have evs: "{c \<in> set (GetReadyToEvict (m_pendingEvictions four_tiles)).
                GetResidency (m_tileMappingState four_tiles) c = Resident} = {?c0}"
    by (auto simp: ready res)
  have c0: "?c0 \<in> set (GetReadyToEvict (m_pendingEvictions four_tiles))"
    "GetResidency (m_tileMappingState four_tiles) ?c0 = Resident"
    "GetHeapIndex (m_tileMappingState four_tiles) ?c0 = 5"
    by (simp add: ready, simp add: res, simp add: tms GetHeapIndex_def layer_at_def)
  from QueuePendingTileEvictions_cases [OF h1 h2 h3, of "[9]" empty_UpdateList]
  show ?thesis
  proof (elim exE conjE)
    fix sr' h' ul'
    assume run: "QueuePendingTileEvictions four_tiles [9] empty_UpdateList = Some (sr', h', ul')"
      and r: "GetReadyToEvict (m_pendingEvictions sr') =
       filter (\<lambda>c. GetResidency (m_tileMappingState four_tiles) c = Loading)
         (GetReadyToEvict (m_pendingEvictions four_tiles))"
      and e: "\<forall>c \<in> set (GetReadyToEvict (m_pendingEvictions four_tiles)).
       GetResidency (m_tileMappingState four_tiles) c = Resident \<longrightarrow>
         GetResidency (m_tileMappingState sr') c = Evicting \<and>
         GetHeapIndex (m_tileMappingState sr') c = InvalidIndex \<and>
         c \<in> set (m_evictCoords ul') \<and>
         GetHeapIndex (m_tileMappingState four_tiles) c \<in> set h'"
      and s: "set (m_evictCoords ul') =
       set (m_evictCoords empty_UpdateList) \<union>
       {c \<in> set (GetReadyToEvict (m_pendingEvictions four_tiles)).
          GetResidency (m_tileMappingState four_tiles) c = Resident}"
    from e [rule_format, OF c0(1) c0(2)] c0(3)
    have "GetResidency (m_tileMappingState sr') ?c0 = Evicting"
      "GetHeapIndex (m_tileMappingState sr') ?c0 = InvalidIndex" "5 \<in> set h'"
      by simp_all
    moreover have "set (m_evictCoords ul') = {?c0}"
      unfolding s evs by (simp add: empty_UpdateList_def)
    ultimately show ?thesis using run r unfolding flt by blast
  qed
qed

section \<open>Queueing the pending loads\<close>












section \<open>The evict-all path\<close>

lemma tile_of_inj: "tile_of t = tile_of t' \<longleftrightarrow> t = t'"
  by (cases t; cases t') (simp add: tile_of_def)

lemma same_cell_tile_of: "same_cell (tile_of t) (tile_of t') \<longleftrightarrow> t = t'"
  by (cases t; cases t') (simp add: tile_of_def same_cell_def)

lemma foldl_Append: "m \<noteq> [] \<Longrightarrow> foldl Append m cs = m[0 := m ! 0 @ cs]"
proof (induction cs arbitrary: m)
  case Nil
  then show ?case by (cases m) simp_all
next
  case (Cons c cs)
  obtain a list where m: "m = a # list" using Cons.prems by (cases m) auto
  have ne: "Append (a # list) c = (a @ [c]) # list" by (simp add: Append_def)
  have "foldl Append ((a @ [c]) # list) cs = ((a @ [c]) # list)[0 := ((a @ [c]) # list) ! 0 @ cs]"
    by (rule Cons.IH) simp
  then show ?case by (simp add: m ne)
qed

lemma zero_tile_eq:
  "zero_tile t (sr, changed) =
     (if GetRefCount (m_tileMappingState sr) (tile_of t) \<noteq> 0
      then (sr\<lparr>m_tileMappingState := SetRefCount (m_tileMappingState sr) (tile_of t) 0,
                m_pendingEvictions := Append (m_pendingEvictions sr) (tile_of t)\<rparr>, True)
      else (sr, changed))"
  by (cases t) (simp add: zero_tile_def tile_of_def Let_def)

lemma clear_refcounts_simps:
  "clear_refcounts [] tms = tms"
  "clear_refcounts (c # cs) tms = clear_refcounts cs (SetRefCount tms c 0)"
  by (simp_all add: clear_refcounts_def)

lemma clear_refcounts_other:
  "m_resident (clear_refcounts cs tms) = m_resident tms"
  "m_heapIndices (clear_refcounts cs tms) = m_heapIndices tms"
  by (induction cs arbitrary: tms) (simp_all add: clear_refcounts_simps SetRefCount_def)

lemma in_layer_clear_refcounts:
  "in_layer (m_refcounts (clear_refcounts cs tms)) x y s = in_layer (m_refcounts tms) x y s"
  by (induction cs arbitrary: tms) (simp_all add: clear_refcounts_simps SetRefCount_def)

lemma GetRefCount_clear_refcounts:
  assumes "\<forall>c \<in> set cs. in_layer (m_refcounts tms) (X c) (Y c) (Subresource c)"
  shows "GetRefCount (clear_refcounts cs tms) c =
           (if \<exists>c' \<in> set cs. same_cell c' c then 0 else GetRefCount tms c)"
  using assms
proof (induction cs arbitrary: tms)
  case Nil
  show ?case by (simp add: clear_refcounts_simps)
next
  case (Cons a cs)
  let ?tms1 = "SetRefCount tms a 0"
  have ain: "in_layer (m_refcounts tms) (X a) (Y a) (Subresource a)" using Cons.prems by simp
  have g1: "GetRefCount ?tms1 c = (if same_cell a c then 0 else GetRefCount tms c)"
    using ain by (simp add: GetRefCount_Set)
  have "\<forall>c \<in> set cs. in_layer (m_refcounts ?tms1) (X c) (Y c) (Subresource c)"
    using Cons.prems by (simp add: SetRefCount_def)
  then have "GetRefCount (clear_refcounts cs ?tms1) c =
           (if \<exists>c' \<in> set cs. same_cell c' c then 0 else GetRefCount ?tms1 c)"
    by (rule Cons.IH)
  then show ?case using g1 by (cases "same_cell a c") (auto simp: clear_refcounts_simps)
qed

lemma fold_zero_tile:
  assumes "distinct ts"
    and "\<forall>t \<in> set ts. in_layer (m_refcounts (m_tileMappingState sr)) (fst t) (fst (snd t)) (snd (snd t))"
  shows "fold zero_tile ts (sr, changed) =
           (sr\<lparr>m_tileMappingState :=
                 clear_refcounts (with_refcount (m_tileMappingState sr) ts) (m_tileMappingState sr),
               m_pendingEvictions :=
                 foldl Append (m_pendingEvictions sr) (with_refcount (m_tileMappingState sr) ts)\<rparr>,
            changed \<or> with_refcount (m_tileMappingState sr) ts \<noteq> [])"
  using assms
proof (induction ts arbitrary: sr changed)
  case Nil
  show ?case by (simp add: with_refcount_def clear_refcounts_simps)
next
  case (Cons t ts)
  let ?tms = "m_tileMappingState sr"
  let ?c = "tile_of t"
  have tin: "in_layer (m_refcounts ?tms) (X ?c) (Y ?c) (Subresource ?c)"
    using Cons.prems(2) by (cases t) (simp add: tile_of_def)
  have tnot: "\<forall>u \<in> set ts. \<not> same_cell ?c (tile_of u)"
    using Cons.prems(1) by (auto simp: same_cell_tile_of)
  show ?case
  proof (cases "GetRefCount ?tms ?c \<noteq> 0")
    case False
    have st: "zero_tile t (sr, changed) = (sr, changed)" using False by (simp add: zero_tile_eq)
    have w: "with_refcount ?tms (t # ts) = with_refcount ?tms ts"
      using False by (simp add: with_refcount_def)
    have "fold zero_tile ts (sr, changed) =
           (sr\<lparr>m_tileMappingState := clear_refcounts (with_refcount ?tms ts) ?tms,
               m_pendingEvictions := foldl Append (m_pendingEvictions sr) (with_refcount ?tms ts)\<rparr>,
            changed \<or> with_refcount ?tms ts \<noteq> [])"
      using Cons.prems by (intro Cons.IH) simp_all
    then show ?thesis by (simp add: st w)
  next
    case True
    let ?tms1 = "SetRefCount ?tms ?c 0"
    let ?sr1 = "sr\<lparr>m_tileMappingState := ?tms1,
                    m_pendingEvictions := Append (m_pendingEvictions sr) ?c\<rparr>"
    have st: "zero_tile t (sr, changed) = (?sr1, True)" using True by (simp add: zero_tile_eq)
    have g1: "\<And>c. GetRefCount ?tms1 c = (if same_cell ?c c then 0 else GetRefCount ?tms c)"
      using tin by (simp add: GetRefCount_Set)
    have p1: "\<forall>t \<in> set ts. in_layer (m_refcounts (m_tileMappingState ?sr1)) (fst t) (fst (snd t)) (snd (snd t))"
      using Cons.prems(2) by (simp add: SetRefCount_def)
    have d1: "distinct ts" using Cons.prems(1) by simp
    have flt: "filter (\<lambda>t. GetRefCount ?tms1 (tile_of t) \<noteq> 0) ts =
               filter (\<lambda>t. GetRefCount ?tms (tile_of t) \<noteq> 0) ts"
    proof (rule filter_cong [OF refl])
      fix u assume "u \<in> set ts"
      then show "(GetRefCount ?tms1 (tile_of u) \<noteq> 0) = (GetRefCount ?tms (tile_of u) \<noteq> 0)"
        using g1 [of "tile_of u"] tnot by simp
    qed
    have w1: "with_refcount ?tms1 ts = with_refcount ?tms ts"
      by (simp add: with_refcount_def flt)
    have w: "with_refcount ?tms (t # ts) = ?c # with_refcount ?tms ts"
      using True by (simp add: with_refcount_def)
    have "fold zero_tile ts (?sr1, True) =
           (?sr1\<lparr>m_tileMappingState :=
                   clear_refcounts (with_refcount (m_tileMappingState ?sr1) ts) (m_tileMappingState ?sr1),
               m_pendingEvictions :=
                   foldl Append (m_pendingEvictions ?sr1) (with_refcount (m_tileMappingState ?sr1) ts)\<rparr>,
            True \<or> with_refcount (m_tileMappingState ?sr1) ts \<noteq> [])"
      using d1 p1 by (rule Cons.IH)
    then show ?thesis by (simp add: st w w1 clear_refcounts_simps)
  qed
qed

lemma distinct_concat_map:
  assumes "distinct xs" and "\<And>x. x \<in> set xs \<Longrightarrow> distinct (f x)"
    and "\<And>x y. x \<in> set xs \<Longrightarrow> y \<in> set xs \<Longrightarrow> x \<noteq> y \<Longrightarrow> set (f x) \<inter> set (f y) = {}"
  shows "distinct (concat (map f xs))"
  using assms
proof (induction xs)
  case Nil
  then show ?case by simp
next
  case (Cons a xs)
  have "distinct (concat (map f xs))" using Cons by simp
  moreover have "distinct (f a)" using Cons.prems(2) by simp
  moreover have "set (f a) \<inter> set (concat (map f xs)) = {}"
  proof -
    have "\<And>y. y \<in> set xs \<Longrightarrow> set (f a) \<inter> set (f y) = {}"
      using Cons.prems(1,3) by auto
    then show ?thesis by auto
  qed
  ultimately show ?case by simp
qed

lemma distinct_tracked_tiles: "distinct (tracked_tiles sr)"
  unfolding tracked_tiles_def
proof (rule distinct_concat_map)
  show "distinct [0..<m_maxMip sr]" by simp
next
  fix s
  show "distinct (concat (map (\<lambda>y. map (\<lambda>x. (x, y, s)) [0..<GetWidth (m_tileMappingState sr) s])
                   [0..<GetHeight (m_tileMappingState sr) s]))"
    by (rule distinct_concat_map) (auto simp: distinct_map inj_on_def)
next
  fix s s' :: nat assume "s \<noteq> s'"
  then show "set (concat (map (\<lambda>y. map (\<lambda>x. (x, y, s)) [0..<GetWidth (m_tileMappingState sr) s])
                   [0..<GetHeight (m_tileMappingState sr) s])) \<inter>
             set (concat (map (\<lambda>y. map (\<lambda>x. (x, y, s')) [0..<GetWidth (m_tileMappingState sr) s'])
                   [0..<GetHeight (m_tileMappingState sr) s'])) = {}"
    by auto
qed

lemma set_tracked_tiles:
  "set (tracked_tiles sr) =
     {(x, y, s). s < m_maxMip sr \<and> y < GetHeight (m_tileMappingState sr) s \<and>
                 x < GetWidth (m_tileMappingState sr) s}"
  by (auto simp: tracked_tiles_def image_iff)

lemma ProcessFeedback_zero_path:
  assumes z: "m_setZeroRefCounts sr" and nz: "\<not> m_refCountsZero sr"
    and wf: "tracked_in_range sr" and ring: "m_pendingEvictions sr \<noteq> []"
  shows "ProcessFeedback rt readback sr fence =
           Some (sr\<lparr>m_tileMappingState := clear_refcounts (in_use sr) (m_tileMappingState sr),
                    m_pendingEvictions :=
                      (m_pendingEvictions sr)[0 := m_pendingEvictions sr ! 0 @ in_use sr],
                    m_pendingTileLoads := [],
                    m_tileReferences := replicate (length (m_tileReferences sr)) (m_maxMip sr),
                    m_tileResidencyChanged := m_tileResidencyChanged sr \<or> in_use sr \<noteq> [],
                    m_setZeroRefCounts := False,
                    m_refCountsZero := True,
                    m_queuedFeedback :=
                      map (\<lambda>f. f\<lparr>m_feedbackQueued := False\<rparr>) (m_queuedFeedback sr)\<rparr>)"
proof -
  define sr2 where "sr2 = sr\<lparr>m_setZeroRefCounts := False, m_refCountsZero := True,
       m_queuedFeedback := map (\<lambda>f. f\<lparr>m_feedbackQueued := False\<rparr>) (m_queuedFeedback sr),
       m_tileReferences := replicate (length (m_tileReferences sr)) (m_maxMip sr)\<rparr>"
  have tt: "tracked_tiles sr2 = tracked_tiles sr" by (simp add: sr2_def tracked_tiles_def)
  have tms2: "m_tileMappingState sr2 = m_tileMappingState sr" by (simp add: sr2_def)
  have pe2: "m_pendingEvictions sr2 = m_pendingEvictions sr" by (simp add: sr2_def)
  have rng: "\<forall>t \<in> set (tracked_tiles sr2).
               in_layer (m_refcounts (m_tileMappingState sr2)) (fst t) (fst (snd t)) (snd (snd t))"
    using wf by (simp add: tracked_in_range_def list_all_iff tt tms2)
  have f: "fold zero_tile (tracked_tiles sr2) (sr2, False) =
           (sr2\<lparr>m_tileMappingState := clear_refcounts (in_use sr) (m_tileMappingState sr),
                m_pendingEvictions :=
                  (m_pendingEvictions sr)[0 := m_pendingEvictions sr ! 0 @ in_use sr]\<rparr>,
            in_use sr \<noteq> [])"
    using fold_zero_tile [OF distinct_tracked_tiles rng, of False]
    by (simp add: tt tms2 pe2 in_use_def foldl_Append [OF ring])
  have "ProcessFeedback rt readback sr fence =
          (case fold zero_tile (tracked_tiles sr2) (sr2, False) of
             (sr3, changed) \<Rightarrow>
               Some (if changed then SetResidencyChanged (sr3\<lparr>m_pendingTileLoads := []\<rparr>)
                     else sr3\<lparr>m_pendingTileLoads := []\<rparr>))"
    using z nz by (simp add: ProcessFeedback_def Let_def sr2_def)
  also have "\<dots> = Some (sr\<lparr>m_tileMappingState := clear_refcounts (in_use sr) (m_tileMappingState sr),
                    m_pendingEvictions :=
                      (m_pendingEvictions sr)[0 := m_pendingEvictions sr ! 0 @ in_use sr],
                    m_pendingTileLoads := [],
                    m_tileReferences := replicate (length (m_tileReferences sr)) (m_maxMip sr),
                    m_tileResidencyChanged := m_tileResidencyChanged sr \<or> in_use sr \<noteq> [],
                    m_setZeroRefCounts := False,
                    m_refCountsZero := True,
                    m_queuedFeedback :=
                      map (\<lambda>f. f\<lparr>m_feedbackQueued := False\<rparr>) (m_queuedFeedback sr)\<rparr>)"
    unfolding f by (cases "in_use sr = []") (simp_all add: sr2_def SetResidencyChanged_def)
  finally show ?thesis .
qed

lemma tracked_1: "tracked_tiles idle_resident = [(0, 0, 0)]"
  by (simp add: tracked_tiles_def idle_resident_def GetWidth_def GetHeight_def)

text \<open>
  Claim C8, as the specification states it, does not hold: the evict-all pass does not
  append every resident tile to bucket 0 of the eviction delay, and it does not always
  mark the residency as changed. In \<open>idle_resident\<close> the only tile is resident with a
  reference count of 0 (it already waits in bucket 1); the signal is set and the reference
  counts have not been zeroed. The pass leaves bucket 0 empty and the residency-changed
  flag unset.
\<close>

theorem ProcessFeedback_evict_all_skips_resident:
  "GetResidency (m_tileMappingState idle_resident) \<lparr>X = 0, Y = 0, Z = 0, Subresource = 0\<rparr> = Resident \<and>
   m_setZeroRefCounts idle_resident \<and> \<not> m_refCountsZero idle_resident \<and>
   ProcessFeedback False [] idle_resident 0 =
     Some \<lparr>m_tileMappingState =
        \<lparr>m_resident = [[[Resident]]],
         m_refcounts = [[[0]]],
         m_heapIndices = [[[3]]]\<rparr>,
      m_pendingEvictions = [[], [\<lparr>X = 0, Y = 0, Z = 0, Subresource = 0\<rparr>], []],
      m_pendingTileLoads = [],
      m_tileReferences = [1],
      m_tileReferencesWidth = 1,
      m_tileReferencesHeight = 1,
      m_maxMip = 1,
      m_minMipMap = [0],
      m_tileResidencyChanged = False,
      m_setZeroRefCounts = False,
      m_refCountsZero = True,
      m_queuedFeedback = [],
      m_residencyMapOffsetBase = 0\<rparr>"
proof -
  have "fold zero_tile (tracked_tiles idle_resident)
          (idle_resident\<lparr>m_setZeroRefCounts := False, m_refCountsZero := True\<rparr>, False) =
        (idle_resident\<lparr>m_setZeroRefCounts := False, m_refCountsZero := True\<rparr>, False)"
    unfolding tracked_1
    by (simp add: zero_tile_def idle_resident_def GetRefCount_def layer_at_def)
  then show ?thesis
    by (simp add: ProcessFeedback_def Let_def tracked_tiles_def idle_resident_def GetWidth_def
        GetHeight_def GetResidency_def layer_at_def zero_tile_def GetRefCount_def)
qed

text \<open>
  Claim C8, amended: when \<^verbatim>\<open>ProcessFeedback\<close> runs with the evict-all signal set and the
  reference counts not already zeroed, it returns a state, whatever the feedback buffers
  and the completed fence value are, in which every tile reference is the packed mip
  \<open>m_maxMip\<close>, every tracked tile has a reference count of 0 (the other cells, the
  residencies and the heap indices are unchanged), bucket 0 of the eviction delay is
  extended by the tracked tiles whose reference count was not 0, in the order of the
  loop, whatever their residency, the pending loads are empty, no feedback buffer is
  queued, the signal is cleared and the reference counts are recorded as zeroed. The
  residency is marked as changed only when some reference count was not 0.
\<close>

theorem ProcessFeedback_evict_all:
  assumes "m_setZeroRefCounts sr" and "\<not> m_refCountsZero sr"
    and "tracked_in_range sr" and "m_pendingEvictions sr \<noteq> []"
  shows "ProcessFeedback RESOLVE_TO_TEXTURE readback sr in_frameFenceCompletedValue =
           Some (sr\<lparr>m_tileMappingState := clear_refcounts (in_use sr) (m_tileMappingState sr),
                    m_pendingEvictions :=
                      (m_pendingEvictions sr)[0 := m_pendingEvictions sr ! 0 @ in_use sr],
                    m_pendingTileLoads := [],
                    m_tileReferences := replicate (length (m_tileReferences sr)) (m_maxMip sr),
                    m_tileResidencyChanged := m_tileResidencyChanged sr \<or> in_use sr \<noteq> [],
                    m_setZeroRefCounts := False,
                    m_refCountsZero := True,
                    m_queuedFeedback :=
                      map (\<lambda>f. f\<lparr>m_feedbackQueued := False\<rparr>) (m_queuedFeedback sr)\<rparr>) \<and>
         (\<forall>t \<in> set (tracked_tiles sr).
            GetRefCount (clear_refcounts (in_use sr) (m_tileMappingState sr)) (tile_of t) = 0) \<and>
         (\<forall>c. (\<forall>t \<in> set (tracked_tiles sr). \<not> same_cell (tile_of t) c) \<longrightarrow>
            GetRefCount (clear_refcounts (in_use sr) (m_tileMappingState sr)) c =
              GetRefCount (m_tileMappingState sr) c) \<and>
         m_resident (clear_refcounts (in_use sr) (m_tileMappingState sr)) =
           m_resident (m_tileMappingState sr) \<and>
         m_heapIndices (clear_refcounts (in_use sr) (m_tileMappingState sr)) =
           m_heapIndices (m_tileMappingState sr)"
proof -
  let ?tms = "m_tileMappingState sr"
  have rng: "\<forall>c \<in> set (in_use sr). in_layer (m_refcounts ?tms) (X c) (Y c) (Subresource c)"
    using assms(3)
    by (auto simp: tracked_in_range_def list_all_iff in_use_def with_refcount_def tile_of_def)
  have g: "\<And>c. GetRefCount (clear_refcounts (in_use sr) ?tms) c =
             (if \<exists>c' \<in> set (in_use sr). same_cell c' c then 0 else GetRefCount ?tms c)"
    by (rule GetRefCount_clear_refcounts [OF rng])
  have mem: "\<And>c. c \<in> set (in_use sr) \<longleftrightarrow>
               (\<exists>t \<in> set (tracked_tiles sr). c = tile_of t \<and> GetRefCount ?tms c \<noteq> 0)"
    by (auto simp: in_use_def with_refcount_def)
  have a: "\<forall>t \<in> set (tracked_tiles sr). GetRefCount (clear_refcounts (in_use sr) ?tms) (tile_of t) = 0"
  proof
    fix t assume t: "t \<in> set (tracked_tiles sr)"
    show "GetRefCount (clear_refcounts (in_use sr) ?tms) (tile_of t) = 0"
    proof (cases "GetRefCount ?tms (tile_of t) = 0")
      case True
      then show ?thesis by (simp add: g)
    next
      case False
      then have "tile_of t \<in> set (in_use sr)" using t mem by blast
      then have "\<exists>c' \<in> set (in_use sr). same_cell c' (tile_of t)"
        using same_cell_refl by blast
      then show ?thesis by (simp add: g)
    qed
  qed
  have b: "\<forall>c. (\<forall>t \<in> set (tracked_tiles sr). \<not> same_cell (tile_of t) c) \<longrightarrow>
            GetRefCount (clear_refcounts (in_use sr) ?tms) c = GetRefCount ?tms c"
  proof (intro allI impI)
    fix c assume n: "\<forall>t \<in> set (tracked_tiles sr). \<not> same_cell (tile_of t) c"
    have "\<not> (\<exists>c' \<in> set (in_use sr). same_cell c' c)"
    proof
      assume "\<exists>c' \<in> set (in_use sr). same_cell c' c"
      then obtain c' where c': "c' \<in> set (in_use sr)" and s: "same_cell c' c" by (elim bexE)
      from c' mem obtain t where "t \<in> set (tracked_tiles sr)" and "c' = tile_of t" by blast
      then show False using n s by blast
    qed
    then show "GetRefCount (clear_refcounts (in_use sr) ?tms) c = GetRefCount ?tms c"
      by (simp add: g)
  qed
  show ?thesis
    using ProcessFeedback_zero_path [OF assms] a b clear_refcounts_other by blast
qed

lemma tracked_4: "tracked_tiles in_use_tiles = [(0, 0, 0), (Suc 0, 0, 0), (2, 0, 0), (3, 0, 0)]"
  by (simp add: tracked_tiles_def in_use_tiles_def GetWidth_def GetHeight_def upt_rec)

lemma in_use_4:
  "in_use in_use_tiles =
     [\<lparr>X = 0, Y = 0, Z = 0, Subresource = 0\<rparr>, \<lparr>X = Suc 0, Y = 0, Z = 0, Subresource = 0\<rparr>,
      \<lparr>X = 2, Y = 0, Z = 0, Subresource = 0\<rparr>, \<lparr>X = 3, Y = 0, Z = 0, Subresource = 0\<rparr>]"
  unfolding in_use_def tracked_4
  by (simp add: with_refcount_def tile_of_def in_use_tiles_def GetRefCount_def layer_at_def)

text \<open>
  Scenario S6 as an instance: the three resident tiles and the tile waiting to be loaded
  end in bucket 0, all reference counts are 0 and the pending loads are empty.
\<close>

theorem ProcessFeedback_evict_all_witness:
  "m_setZeroRefCounts in_use_tiles \<and> \<not> m_refCountsZero in_use_tiles \<and>
   tracked_in_range in_use_tiles \<and> m_pendingEvictions in_use_tiles \<noteq> [] \<and>
   ProcessFeedback False [] in_use_tiles 0 =
     Some \<lparr>m_tileMappingState =
        \<lparr>m_resident = [[[Resident, Resident, Resident, NotResident]]],
         m_refcounts = [[[0, 0, 0, 0]]],
         m_heapIndices = [[[0, 1, 2, InvalidIndex]]]\<rparr>,
      m_pendingEvictions =
        [[\<lparr>X = 0, Y = 0, Z = 0, Subresource = 0\<rparr>, \<lparr>X = 1, Y = 0, Z = 0, Subresource = 0\<rparr>,
          \<lparr>X = 2, Y = 0, Z = 0, Subresource = 0\<rparr>, \<lparr>X = 3, Y = 0, Z = 0, Subresource = 0\<rparr>],
         [], []],
      m_pendingTileLoads = [],
      m_tileReferences = [1, 1, 1, 1],
      m_tileReferencesWidth = 4,
      m_tileReferencesHeight = 1,
      m_maxMip = 1,
      m_minMipMap = [0, 0, 0, 1],
      m_tileResidencyChanged = True,
      m_setZeroRefCounts = False,
      m_refCountsZero = True,
      m_queuedFeedback = [\<lparr>m_renderFenceForFeedback = 5, m_feedbackQueued = False\<rparr>],
      m_residencyMapOffsetBase = 0\<rparr>"
proof -
  have h1: "m_setZeroRefCounts in_use_tiles" by (simp add: in_use_tiles_def)
  have h2: "\<not> m_refCountsZero in_use_tiles" by (simp add: in_use_tiles_def)
  have h3: "tracked_in_range in_use_tiles"
    unfolding tracked_in_range_def tracked_4 by (simp add: in_use_tiles_def in_layer_def)
  have h4: "m_pendingEvictions in_use_tiles \<noteq> []" by (simp add: in_use_tiles_def)
  have c: "clear_refcounts
        [\<lparr>X = 0, Y = 0, Z = 0, Subresource = 0\<rparr>, \<lparr>X = Suc 0, Y = 0, Z = 0, Subresource = 0\<rparr>,
         \<lparr>X = 2, Y = 0, Z = 0, Subresource = 0\<rparr>, \<lparr>X = 3, Y = 0, Z = 0, Subresource = 0\<rparr>]
        \<lparr>m_resident = [[[Resident, Resident, Resident, NotResident]]],
         m_refcounts = [[[1, 1, 1, 1]]],
         m_heapIndices = [[[0, 1, 2, InvalidIndex]]]\<rparr> =
        \<lparr>m_resident = [[[Resident, Resident, Resident, NotResident]]],
         m_refcounts = [[[0, 0, 0, 0]]],
         m_heapIndices = [[[0, 1, 2, InvalidIndex]]]\<rparr>"
    by (simp add: clear_refcounts_simps SetRefCount_def layer_upd_def)
  have r: "replicate 4 (Suc 0) = [1, 1, 1, 1]" by (simp add: numeral_eq_Suc)
  from ProcessFeedback_evict_all [OF h1 h2 h3 h4, of False "[]" 0]
  have "ProcessFeedback False [] in_use_tiles 0 =
           Some (in_use_tiles\<lparr>m_tileMappingState :=
                      clear_refcounts (in_use in_use_tiles) (m_tileMappingState in_use_tiles),
                    m_pendingEvictions :=
                      (m_pendingEvictions in_use_tiles)
                        [0 := m_pendingEvictions in_use_tiles ! 0 @ in_use in_use_tiles],
                    m_pendingTileLoads := [],
                    m_tileReferences :=
                      replicate (length (m_tileReferences in_use_tiles)) (m_maxMip in_use_tiles),
                    m_tileResidencyChanged :=
                      m_tileResidencyChanged in_use_tiles \<or> in_use in_use_tiles \<noteq> [],
                    m_setZeroRefCounts := False,
                    m_refCountsZero := True,
                    m_queuedFeedback :=
                      map (\<lambda>f. f\<lparr>m_feedbackQueued := False\<rparr>) (m_queuedFeedback in_use_tiles)\<rparr>)"
    by (rule conjunct1)
  then have "ProcessFeedback False [] in_use_tiles 0 =
     Some \<lparr>m_tileMappingState =
        \<lparr>m_resident = [[[Resident, Resident, Resident, NotResident]]],
         m_refcounts = [[[0, 0, 0, 0]]],
         m_heapIndices = [[[0, 1, 2, InvalidIndex]]]\<rparr>,
      m_pendingEvictions =
        [[\<lparr>X = 0, Y = 0, Z = 0, Subresource = 0\<rparr>, \<lparr>X = 1, Y = 0, Z = 0, Subresource = 0\<rparr>,
          \<lparr>X = 2, Y = 0, Z = 0, Subresource = 0\<rparr>, \<lparr>X = 3, Y = 0, Z = 0, Subresource = 0\<rparr>],
         [], []],
      m_pendingTileLoads = [],
      m_tileReferences = [1, 1, 1, 1],
      m_tileReferencesWidth = 4,
      m_tileReferencesHeight = 1,
      m_maxMip = 1,
      m_minMipMap = [0, 0, 0, 1],
      m_tileResidencyChanged = True,
      m_setZeroRefCounts = False,
      m_refCountsZero = True,
      m_queuedFeedback = [\<lparr>m_renderFenceForFeedback = 5, m_feedbackQueued = False\<rparr>],
      m_residencyMapOffsetBase = 0\<rparr>"
    unfolding in_use_4 by (simp add: in_use_tiles_def r c)
  with h1 h2 h3 h4 show ?thesis by blast
qed

section \<open>The published min-mip map\<close>

lemma regions_Suc:
  "regions w (Suc h) = regions w h @ map (\<lambda>x. (x, h)) [0..<w]"
  by (simp add: regions_def)

lemma length_regions: "length (regions w h) = h * w"
  by (induction h) (simp_all add: regions_Suc, simp add: regions_def)

lemma nth_regions: "x < w \<Longrightarrow> y < h \<Longrightarrow> regions w h ! (y * w + x) = (x, y)"
proof (induction h)
  case 0
  then show ?case by simp
next
  case (Suc h)
  show ?case
  proof (cases "y < h")
    case True
    then have "y * w + x < h * w"
      using Suc.prems(1) by (metis add.commute mult_Suc add_less_cancel_left less_le_trans Suc_leI mult_le_mono1)
    then show ?thesis using Suc True by (simp add: regions_Suc nth_append length_regions)
  next
    case False
    then have "y = h" using Suc.prems(2) by simp
    then show ?thesis using Suc.prems(1) by (simp add: regions_Suc nth_append length_regions)
  qed
qed

lemma min_mip_walk_chain:
  "s \<le> m \<Longrightarrow>
     min_mip_walk tms x y s m \<le> m \<and>
     (\<forall>k. min_mip_walk tms x y s m \<le> k \<and> k < s \<longrightarrow>
          GetResident tms (drop_bit k x) (drop_bit k y) k)"
proof (induction s arbitrary: m)
  case 0
  show ?case by simp
next
  case (Suc s)
  show ?case
  proof (cases "GetResident tms (drop_bit s x) (drop_bit s y) s")
    case True
    have ih: "min_mip_walk tms x y s s \<le> s \<and>
          (\<forall>k. min_mip_walk tms x y s s \<le> k \<and> k < s \<longrightarrow>
             GetResident tms (drop_bit k x) (drop_bit k y) k)"
      by (rule Suc.IH) simp
    have eq: "min_mip_walk tms x y (Suc s) m = min_mip_walk tms x y s s" using True by simp
    show ?thesis
    proof (intro conjI allI impI)
      show "min_mip_walk tms x y (Suc s) m \<le> m" using ih Suc.prems eq by simp
    next
      fix k assume k: "min_mip_walk tms x y (Suc s) m \<le> k \<and> k < Suc s"
      show "GetResident tms (drop_bit k x) (drop_bit k y) k"
      proof (cases "k = s")
        case True
        then show ?thesis using \<open>GetResident tms (drop_bit s x) (drop_bit s y) s\<close> by simp
      next
        case False
        then have "min_mip_walk tms x y s s \<le> k \<and> k < s" using k eq by simp
        then show ?thesis using ih by blast
      qed
    qed
  next
    case False
    then have eq: "min_mip_walk tms x y (Suc s) m = m" by simp
    show ?thesis unfolding eq using Suc.prems by auto
  qed
qed

lemma fold_min_mip_region:
  "fold (min_mip_region tms r0) rs (mm, i) =
     (map (\<lambda>j. if i \<le> j \<and> j < i + length rs
                then (let s = max r0 (mm ! j)
                      in min_mip_walk tms (fst (rs ! (j - i))) (snd (rs ! (j - i))) s s)
                else mm ! j) [0..<length mm],
      i + length rs)"
proof (induction rs arbitrary: mm i)
  case Nil
  show ?case by (auto intro!: nth_equalityI)
next
  case (Cons r rs)
  obtain x y where r: "r = (x, y)" by (cases r)
  let ?v = "min_mip_walk tms x y (max r0 (mm ! i)) (max r0 (mm ! i))"
  have st: "min_mip_region tms r0 r (mm, i) = (mm[i := ?v], Suc i)"
    by (simp add: min_mip_region_def r Let_def)
  have "fold (min_mip_region tms r0) (r # rs) (mm, i) =
        fold (min_mip_region tms r0) rs (mm[i := ?v], Suc i)"
    by (simp add: st)
  also have "\<dots> =
     (map (\<lambda>j. if Suc i \<le> j \<and> j < Suc i + length rs
                then (let s = max r0 (mm[i := ?v] ! j)
                      in min_mip_walk tms (fst (rs ! (j - Suc i))) (snd (rs ! (j - Suc i))) s s)
                else mm[i := ?v] ! j) [0..<length (mm[i := ?v])],
      Suc i + length rs)"
    by (rule Cons.IH)
  also have "\<dots> =
     (map (\<lambda>j. if i \<le> j \<and> j < i + length (r # rs)
                then (let s = max r0 (mm ! j)
                      in min_mip_walk tms (fst ((r # rs) ! (j - i))) (snd ((r # rs) ! (j - i))) s s)
                else mm ! j) [0..<length mm],
      i + length (r # rs))"
  proof -
    have "\<And>j. j < length mm \<Longrightarrow>
      (if Suc i \<le> j \<and> j < Suc i + length rs
                then (let s = max r0 (mm[i := ?v] ! j)
                      in min_mip_walk tms (fst (rs ! (j - Suc i))) (snd (rs ! (j - Suc i))) s s)
                else mm[i := ?v] ! j) =
      (if i \<le> j \<and> j < i + length (r # rs)
                then (let s = max r0 (mm ! j)
                      in min_mip_walk tms (fst ((r # rs) ! (j - i))) (snd ((r # rs) ! (j - i))) s s)
                else mm ! j)"
    proof -
      fix j assume j: "j < length mm"
      consider "j < i" | "j = i" | "i < j" by linarith
      then show "(if Suc i \<le> j \<and> j < Suc i + length rs
                then (let s = max r0 (mm[i := ?v] ! j)
                      in min_mip_walk tms (fst (rs ! (j - Suc i))) (snd (rs ! (j - Suc i))) s s)
                else mm[i := ?v] ! j) =
      (if i \<le> j \<and> j < i + length (r # rs)
                then (let s = max r0 (mm ! j)
                      in min_mip_walk tms (fst ((r # rs) ! (j - i))) (snd ((r # rs) ! (j - i))) s s)
                else mm ! j)"
      proof cases
        case 1
        then show ?thesis by simp
      next
        case 2
        then show ?thesis using j by (simp add: r Let_def)
      next
        case 3
        then have "j - i = Suc (j - Suc i)" by simp
        then show ?thesis using 3 by (simp add: Let_def)
      qed
    qed
    then show ?thesis by simp
  qed
  finally show ?case .
qed

lemma memcpy_nth:
  "off + length src \<le> length dst \<Longrightarrow> j < length src \<Longrightarrow> memcpy dst off src ! (off + j) = src ! j"
  by (simp add: memcpy_def nth_append)

lemma last_layer_resident:
  assumes "mip_all_resident tms s" and "in_layer (m_resident tms) x y s"
  shows "GetResident tms x y s"
  using assms
  by (auto simp: mip_all_resident_def in_layer_def GetResident_def layer_at_def list_all_length)

lemma GetMinResidentMip_range:
  assumes "0 < length (m_resident tms)" and "length (m_resident tms) < 256"
  shows "GetMinResidentMip tms = length (m_resident tms) \<or>
         GetMinResidentMip tms = length (m_resident tms) - 1 \<and>
           mip_all_resident tms (length (m_resident tms) - 1)"
  using assms
  by (auto simp: GetMinResidentMip_def mip_all_resident_def last_conv_nth Let_def)

lemma region_index: "x < (w::nat) \<Longrightarrow> y < h \<Longrightarrow> y * w + x < w * h"
proof -
  assume x: "x < w" and y: "y < h"
  have "y * w + x < y * w + w" using x by simp
  also have "\<dots> = Suc y * w" by simp
  also have "\<dots> \<le> h * w" using y by (intro mult_le_mono1) simp
  finally show ?thesis by (simp add: mult.commute)
qed

text \<open>
  Claim C1: when \<^verbatim>\<open>UpdateMinMipMap\<close> runs with the residency-changed flag set, the
  value \<open>m\<close> that it writes for the region \<open>(x, y)\<close>, into \<open>m_minMipMap\<close> and into the
  shared residency map at the offset of the resource, is at most \<open>m_maxMip\<close>, and every
  tile \<open>(x >> k, y >> k, k)\<close> with \<open>m \<le> k < m_maxMip\<close> is \<open>Resident\<close> in the tile
  mapping state, which the function does not change. The state is as the constructor makes
  it: one layer per tracked mip, between 1 and 255 of them, a min-mip map of one entry per
  region, with entries at most \<open>m_maxMip\<close>.
\<close>

theorem UpdateMinMipMap_no_holes:
  assumes flag: "m_tileResidencyChanged sr"
    and layers: "length (m_resident (m_tileMappingState sr)) = m_maxMip sr"
    and M: "0 < m_maxMip sr" "m_maxMip sr < 256"
    and chain: "chain_in_range sr"
    and size: "length (m_minMipMap sr) = m_tileReferencesWidth sr * m_tileReferencesHeight sr"
    and prev: "\<forall>v \<in> set (m_minMipMap sr). v \<le> m_maxMip sr"
    and buf: "m_residencyMapOffsetBase sr + length (m_minMipMap sr) \<le> length residencyMap"
    and x: "x < m_tileReferencesWidth sr" and y: "y < m_tileReferencesHeight sr"
    and run: "UpdateMinMipMap sr residencyMap = (sr', residencyMap')"
  shows "residencyMap' ! (m_residencyMapOffsetBase sr + (y * m_tileReferencesWidth sr + x)) =
           m_minMipMap sr' ! (y * m_tileReferencesWidth sr + x) \<and>
         m_minMipMap sr' ! (y * m_tileReferencesWidth sr + x) \<le> m_maxMip sr \<and>
         (\<forall>k. m_minMipMap sr' ! (y * m_tileReferencesWidth sr + x) \<le> k \<and> k < m_maxMip sr \<longrightarrow>
              GetResident (m_tileMappingState sr') (drop_bit k x) (drop_bit k y) k) \<and>
         m_tileMappingState sr' = m_tileMappingState sr"
proof -
  let ?tms = "m_tileMappingState sr"
  let ?W = "m_tileReferencesWidth sr"
  let ?H = "m_tileReferencesHeight sr"
  let ?M = "m_maxMip sr"
  let ?j = "y * ?W + x"
  let ?r0 = "GetMinResidentMip ?tms"
  define mm where "mm =
     (if GetAnyRefCount ?tms
      then fst (fold (min_mip_region ?tms ?r0) (regions ?W ?H) (m_minMipMap sr, 0))
      else replicate (length (m_minMipMap sr)) ?M)"
  have sr': "sr' = sr\<lparr>m_tileResidencyChanged := False, m_minMipMap := mm\<rparr>"
    and rm': "residencyMap' = memcpy residencyMap (m_residencyMapOffsetBase sr) mm"
    using run flag by (auto simp: UpdateMinMipMap_def Let_def mm_def)
  have j: "?j < length (m_minMipMap sr)" using region_index [OF x y] size by simp
  have len: "length mm = length (m_minMipMap sr)"
    by (simp add: mm_def fold_min_mip_region)
  have inr: "\<And>k. k < ?M \<Longrightarrow> in_layer (m_resident ?tms) (drop_bit k x) (drop_bit k y) k"
  proof -
    fix k assume k: "k < ?M"
    have "(x, y) \<in> set (regions ?W ?H)"
      using nth_regions [OF x y] region_index [OF x y] length_regions [of ?W ?H]
      by (metis mult.commute nth_mem)
    then show "in_layer (m_resident ?tms) (drop_bit k x) (drop_bit k y) k"
      using chain k by (auto simp: chain_in_range_def list_all_iff)
  qed
  have val: "mm ! ?j \<le> ?M \<and>
        (\<forall>k. mm ! ?j \<le> k \<and> k < ?M \<longrightarrow> GetResident ?tms (drop_bit k x) (drop_bit k y) k)"
  proof (cases "GetAnyRefCount ?tms")
    case False
    then have "mm ! ?j = ?M" using j by (simp add: mm_def)
    then show ?thesis by auto
  next
    case True
    define s where "s = max ?r0 (m_minMipMap sr ! ?j)"
    have v: "mm ! ?j = min_mip_walk ?tms x y s s"
      using True j nth_regions [OF x y]
      by (simp add: mm_def fold_min_mip_region length_regions size mult.commute Let_def s_def)
    have w: "min_mip_walk ?tms x y s s \<le> s \<and>
          (\<forall>k. min_mip_walk ?tms x y s s \<le> k \<and> k < s \<longrightarrow>
             GetResident ?tms (drop_bit k x) (drop_bit k y) k)"
      by (rule min_mip_walk_chain) simp
    have p: "m_minMipMap sr ! ?j \<le> ?M" using prev j by simp
    have r0: "?r0 = ?M \<or> ?r0 = ?M - 1 \<and> mip_all_resident ?tms (?M - 1)"
      using GetMinResidentMip_range [of ?tms] M layers by simp
    have sM: "s \<le> ?M" using p r0 by (auto simp: s_def)
    have top: "\<And>k. s \<le> k \<Longrightarrow> k < ?M \<Longrightarrow> GetResident ?tms (drop_bit k x) (drop_bit k y) k"
    proof -
      fix k assume k: "s \<le> k" "k < ?M"
      have "?r0 \<le> k" using k by (simp add: s_def)
      then have "?r0 = ?M - 1" and a: "mip_all_resident ?tms (?M - 1)" using r0 k by auto
      then have "k = ?M - 1" using \<open>?r0 \<le> k\<close> k by simp
      then show "GetResident ?tms (drop_bit k x) (drop_bit k y) k"
        using a inr [OF k(2)] last_layer_resident by simp
    qed
    show ?thesis
    proof (intro conjI allI impI)
      show "mm ! ?j \<le> ?M" using v w sM by simp
    next
      fix k assume k: "mm ! ?j \<le> k \<and> k < ?M"
      show "GetResident ?tms (drop_bit k x) (drop_bit k y) k"
      proof (cases "k < s")
        case True
        then show ?thesis using w v k by simp
      next
        case False
        then show ?thesis using top [of k] k by simp
      qed
    qed
  qed
  have pub: "residencyMap' ! (m_residencyMapOffsetBase sr + ?j) = mm ! ?j"
    unfolding rm' using buf j len by (intro memcpy_nth) simp_all
  show ?thesis using val pub by (simp add: sr')
qed

lemma half_resident_UpdateMinMipMap:
  "UpdateMinMipMap half_resident [9, 9, 9, 9] =
     (half_resident\<lparr>m_tileResidencyChanged := False, m_minMipMap := [0, 1]\<rparr>, [9, 0, 1, 9])"
proof -
  have w: "\<And>tms x y. min_mip_walk tms x y 2 2 =
     (if GetResident tms (drop_bit (Suc 0) x) (drop_bit (Suc 0) y) (Suc 0)
      then (if GetResident tms x y 0 then 0 else Suc 0) else 2)"
    by (simp add: numeral_2_eq_2)
  have a: "GetAnyRefCount (m_tileMappingState half_resident)"
    by (simp add: GetAnyRefCount_def half_resident_def)
  have r: "GetMinResidentMip (m_tileMappingState half_resident) = Suc 0"
    by (simp add: GetMinResidentMip_def half_resident_def)
  have f: "fold (min_mip_region (m_tileMappingState half_resident) (Suc 0))
             [(0, 0), (Suc 0, 0)] ([2, 2], 0) = ([0, Suc 0], 2)"
    by (simp add: min_mip_region_def Let_def w half_resident_def GetResident_def layer_at_def)
  have t: "m_tileResidencyChanged half_resident" by (simp add: half_resident_def)
  have "UpdateMinMipMap half_resident [9, 9, 9, 9] =
     (half_resident\<lparr>m_tileResidencyChanged := False, m_minMipMap := [0, Suc 0]\<rparr>,
      memcpy [9, 9, 9, 9] (Suc 0) [0, Suc 0])"
    using a r t f by (simp add: UpdateMinMipMap_def Let_def half_resident_def regions_2_1)
  then show ?thesis by (simp add: memcpy_def)
qed

text \<open>
  An instance: region 0 is published at mip 0, its two tiles being resident, and region 1
  at mip 1, its fine tile being absent.
\<close>

theorem UpdateMinMipMap_no_holes_witness:
  "UpdateMinMipMap half_resident [9, 9, 9, 9] =
     (half_resident\<lparr>m_tileResidencyChanged := False, m_minMipMap := [0, 1]\<rparr>, [9, 0, 1, 9]) \<and>
   GetResident (m_tileMappingState half_resident) 0 0 0 \<and>
   GetResident (m_tileMappingState half_resident) 0 0 1"
proof -
  have h1: "m_tileResidencyChanged half_resident" by (simp add: half_resident_def)
  have h2: "length (m_resident (m_tileMappingState half_resident)) = m_maxMip half_resident"
    by (simp add: half_resident_def)
  have h3: "0 < m_maxMip half_resident" "m_maxMip half_resident < 256"
    by (simp_all add: half_resident_def)
  have h4: "chain_in_range half_resident"
    unfolding chain_in_range_def
    by (simp add: half_resident_def regions_2_1 in_layer_def upt_rec)
  have h5: "length (m_minMipMap half_resident) =
              m_tileReferencesWidth half_resident * m_tileReferencesHeight half_resident"
    by (simp add: half_resident_def)
  have h6: "\<forall>v \<in> set (m_minMipMap half_resident). v \<le> m_maxMip half_resident"
    by (simp add: half_resident_def)
  have h7: "m_residencyMapOffsetBase half_resident + length (m_minMipMap half_resident)
              \<le> length [9, 9, 9, 9 :: nat]"
    by (simp add: half_resident_def)
  have h8: "0 < m_tileReferencesWidth half_resident" "0 < m_tileReferencesHeight half_resident"
    by (simp_all add: half_resident_def)
  from UpdateMinMipMap_no_holes [OF h1 h2 h3 h4 h5 h6 h7 h8 half_resident_UpdateMinMipMap]
  have c: "\<forall>k. 0 \<le> k \<and> k < 2 \<longrightarrow>
          GetResident (m_tileMappingState half_resident) (drop_bit k 0) (drop_bit k 0) k"
    by (simp add: half_resident_def)
  from c [rule_format, of 0] c [rule_format, of 1]
  have "GetResident (m_tileMappingState half_resident) 0 0 0 \<and>
        GetResident (m_tileMappingState half_resident) 0 0 1"
    by simp
  then show ?thesis using half_resident_UpdateMinMipMap by simp
qed

end
